theory Spec2Isabelle
  imports Main "HOL-Library.Word"
begin

unbundle bit_operations_syntax

section \<open>Data representation\<close>

text \<open>
  A JavaScript string is a sequence of 16-bit code units (what \<open>length\<close>,
  \<open>charCodeAt\<close> and \<open>slice\<close> count); a Node \<open>Buffer\<close> is a sequence of bytes.
  Storing a number into a buffer cell keeps its low eight bits, and a store outside the
  buffer is dropped, as HOL's list update is.
\<close>

type_synonym jsstring = "16 word list"
type_synonym byte = "8 word"
type_synonym bytes = "8 word list"

definition js :: "string \<Rightarrow> jsstring" where
  "js s = map of_char s"

text \<open>Truthiness of a nullable string: \<open>null\<close> and \<open>''\<close> are falsy.\<close>

fun truthy :: "jsstring option \<Rightarrow> bool" where
  "truthy None = False"
| "truthy (Some s) = (s \<noteq> [])"

section \<open>clientPatcher.js: domain configuration\<close>

definition ORIGINAL_DOMAIN :: jsstring where
  "ORIGINAL_DOMAIN = js ''hytale.com''"

definition MIN_DOMAIN_LENGTH :: nat where
  "MIN_DOMAIN_LENGTH = 4"

definition MAX_DOMAIN_LENGTH :: nat where
  "MAX_DOMAIN_LENGTH = 16"

definition DEFAULT_NEW_DOMAIN :: jsstring where
  "DEFAULT_NEW_DOMAIN = js ''auth.sanasol.ws''"

text \<open>
  What \<open>getTargetDomain\<close> reads: the environment variable \<open>HYTALE_AUTH_DOMAIN\<close>
  and the outcome of the config collaborator's \<open>getAuthDomain\<close> (\<open>Inl\<close> when
  loading or calling it throws).
\<close>

record domainEnv =
  HYTALE_AUTH_DOMAIN :: "jsstring option"
  getAuthDomain :: "string + jsstring"

definition getTargetDomain :: "'a domainEnv_scheme \<Rightarrow> jsstring" where
  "getTargetDomain e =
     (if truthy (HYTALE_AUTH_DOMAIN e) then the (HYTALE_AUTH_DOMAIN e)
      else case getAuthDomain e of
             Inr d \<Rightarrow> d
           | Inl err \<Rightarrow> js ''auth.sanasol.ws'')"

definition getNewDomain :: "'a domainEnv_scheme \<Rightarrow> jsstring" where
  "getNewDomain e =
     (let domain = getTargetDomain e in
      if length domain < MIN_DOMAIN_LENGTH then DEFAULT_NEW_DOMAIN
      else if length domain > MAX_DOMAIN_LENGTH then DEFAULT_NEW_DOMAIN
      else domain)"

datatype patchMode = direct | split

record domainStrategy =
  mode :: patchMode
  mainDomain :: jsstring
  subdomainPrefix :: jsstring

definition getDomainStrategy :: "jsstring \<Rightarrow> domainStrategy" where
  "getDomainStrategy domain =
     (if length domain \<le> 10
      then \<lparr>mode = direct, mainDomain = domain, subdomainPrefix = []\<rparr>
      else \<lparr>mode = split, mainDomain = drop 6 domain, subdomainPrefix = take 6 domain\<rparr>)"

section \<open>clientPatcher.js: string encodings\<close>

text \<open>
  The loop of \<open>stringToLengthPrefixed\<close>: every character is stored at \<open>pos\<close>,
  and a zero after it unless it is the last one.
\<close>

fun lpFill :: "jsstring \<Rightarrow> nat \<Rightarrow> bytes \<Rightarrow> bytes" where
  "lpFill [] pos result = result"
| "lpFill [c] pos result = result[pos := ucast c]"
| "lpFill (c # d # cs) pos result =
     lpFill (d # cs) (pos + 2) (result[pos := ucast c, pos + 1 := 0])"

text \<open>
  \<open>Buffer.alloc(4 + length + (length - 1))\<close> is computed on integers: the empty string
  gets three bytes. \<open>result[0] = length\<close> keeps the low byte of the length.
\<close>

definition stringToLengthPrefixed :: "jsstring \<Rightarrow> bytes" where
  "stringToLengthPrefixed str =
     (let len = length str;
          result = replicate (nat (4 + int len + (int len - 1))) (0 :: byte);
          result = result[0 := of_nat len, 1 := 0, 2 := 0, 3 := 0]
      in lpFill str 4 result)"

text \<open>\<open>writeUInt16LE\<close>: low byte, then high byte.\<close>

fun stringToUtf16LE :: "jsstring \<Rightarrow> bytes" where
  "stringToUtf16LE [] = []"
| "stringToUtf16LE (c # cs) = ucast c # ucast (drop_bit 8 c) # stringToUtf16LE cs"

text \<open>The four bytes of a 32-bit little-endian unsigned integer.\<close>

definition u32le :: "nat \<Rightarrow> bytes" where
  "u32le n = [of_nat n, of_nat (n div 256), of_nat (n div 65536), of_nat (n div 16777216)]"

text \<open>
  The payload of a length-prefixed record written as a list: the characters' low bytes
  with a zero between neighbours.
\<close>

fun interleave :: "jsstring \<Rightarrow> bytes" where
  "interleave [] = []"
| "interleave [c] = [ucast c]"
| "interleave (c # d # cs) = ucast c # 0 # interleave (d # cs)"

section \<open>clientPatcher.js: searching and replacing in a buffer\<close>

text \<open>
  \<open>buffer.indexOf(pattern, pos)\<close>: the first index from \<open>pos\<close> on at which the
  pattern starts, \<open>None\<close> for \<open>-1\<close>. An empty pattern is found at \<open>pos\<close> itself.
\<close>

fun indexOfFrom :: "'a list \<Rightarrow> 'a list \<Rightarrow> nat option" where
  "indexOfFrom [] pattern = (if pattern = [] then Some 0 else None)"
| "indexOfFrom (b # bs) pattern =
     (if take (length pattern) (b # bs) = pattern then Some 0
      else map_option Suc (indexOfFrom bs pattern))"

definition indexOf :: "bytes \<Rightarrow> bytes \<Rightarrow> nat \<Rightarrow> nat option" where
  "indexOf buffer pattern pos =
     map_option (\<lambda>k. pos + k) (indexOfFrom (drop pos buffer) pattern)"

definition bufIncludes :: "bytes \<Rightarrow> bytes \<Rightarrow> bool" where
  "bufIncludes buffer pattern = (indexOf buffer pattern 0 \<noteq> None)"

function findLoop :: "bytes \<Rightarrow> bytes \<Rightarrow> nat \<Rightarrow> nat list \<Rightarrow> nat list" where
  "findLoop buffer pattern pos positions =
     (if pos < length buffer
      then (case indexOf buffer pattern pos of
              None \<Rightarrow> positions
            | Some index \<Rightarrow> findLoop buffer pattern (index + 1) (positions @ [index]))
      else positions)"
  by pat_completeness auto
termination
  by (relation "measure (\<lambda>(buffer, pattern, pos, positions). length buffer - pos)")
     (auto simp: indexOf_def)

declare findLoop.simps [simp del]

definition findAllOccurrences :: "bytes \<Rightarrow> bytes \<Rightarrow> nat list" where
  "findAllOccurrences buffer pattern = findLoop buffer pattern 0 []"

text \<open>
  \<open>source.copy(target, targetStart)\<close>: overwrites the target from \<open>targetStart\<close> on
  with as many bytes of the source as fit; the target keeps its length.
\<close>

definition bufcopy :: "bytes \<Rightarrow> bytes \<Rightarrow> nat \<Rightarrow> bytes" where
  "bufcopy source target targetStart =
     take (length target)
       (take targetStart target @ source @ drop (targetStart + length source) target)"

text \<open>The functions below return the pair \<open>(buffer, count)\<close> of the source's result object.\<close>

definition replaceBytes :: "bytes \<Rightarrow> bytes \<Rightarrow> bytes \<Rightarrow> bytes \<times> nat" where
  "replaceBytes buffer oldBytes newBytes =
     (let result = buffer in
      if length newBytes > length oldBytes then (result, 0)
      else
        let positions = findAllOccurrences result oldBytes in
        foldl (\<lambda>(result, count) pos. (bufcopy newBytes result pos, count + 1))
          (result, 0) positions)"

text \<open>\<open>s.charCodeAt(s.length - 1)\<close>; \<open>None\<close> is the \<open>NaN\<close> of the empty string.\<close>

definition lastCharCode :: "jsstring \<Rightarrow> 16 word option" where
  "lastCharCode s = (if s = [] then None else Some (last s))"

definition smartStep ::
  "nat \<Rightarrow> 16 word option \<Rightarrow> bytes \<Rightarrow> 16 word option \<Rightarrow> bytes \<times> nat \<Rightarrow> nat \<Rightarrow> bytes \<times> nat" where
  "smartStep oldLen oldLastCharByte newUtf16NoLast newLastCharByte rc pos =
     (let result = fst rc; count = snd rc; lastCharPos = pos + oldLen in
      if lastCharPos + 1 > length result then (result, count)
      else
        let lastCharFirstByte = result ! lastCharPos in
        if (case oldLastCharByte of None \<Rightarrow> False | Some c \<Rightarrow> unat lastCharFirstByte = unat c)
        then ((bufcopy newUtf16NoLast result pos)
                [lastCharPos := (case newLastCharByte of None \<Rightarrow> 0 | Some c \<Rightarrow> ucast c)],
              count + 1)
        else (result, count))"

definition findAndReplaceDomainSmart :: "bytes \<Rightarrow> jsstring \<Rightarrow> jsstring \<Rightarrow> bytes \<times> nat" where
  "findAndReplaceDomainSmart data oldDomain newDomain =
     (let result = data;
          oldUtf16NoLast = stringToUtf16LE (butlast oldDomain);
          newUtf16NoLast = stringToUtf16LE (butlast newDomain);
          oldLastCharByte = lastCharCode oldDomain;
          newLastCharByte = lastCharCode newDomain;
          positions = findAllOccurrences result oldUtf16NoLast
      in foldl (smartStep (length oldUtf16NoLast) oldLastCharByte newUtf16NoLast newLastCharByte)
           (result, 0) positions)"

definition oldSentry :: jsstring where
  "oldSentry = js ''https://ca900df42fcf57d4dd8401a86ddd7da2@sentry.hytale.com/2''"

definition subdomains :: "jsstring list" where
  "subdomains = [js ''https://tools.'', js ''https://sessions.'',
                 js ''https://account-data.'', js ''https://telemetry.'']"

text \<open>One round of the loop over the subdomains: \<open>(result, totalCount)\<close> is updated.\<close>

definition subdomainStep :: "jsstring \<Rightarrow> bytes \<times> nat \<Rightarrow> jsstring \<Rightarrow> bytes \<times> nat" where
  "subdomainStep newSubdomainPrefix rt sub =
     (let subResult = replaceBytes (fst rt) (stringToLengthPrefixed sub)
                        (stringToLengthPrefixed newSubdomainPrefix)
      in (fst subResult, snd rt + snd subResult))"

definition applyDomainPatches :: "bytes \<Rightarrow> jsstring \<Rightarrow> jsstring \<Rightarrow> bytes \<times> nat" where
  "applyDomainPatches data domain protocol =
     (let result = data;
          totalCount = 0;
          strategy = getDomainStrategy domain;
          newSentry = protocol @ js ''t@'' @ domain @ js ''/2'';
          sentryResult = replaceBytes result (stringToLengthPrefixed oldSentry)
                           (stringToLengthPrefixed newSentry);
          result = fst sentryResult;
          totalCount = totalCount + snd sentryResult;
          domainResult = replaceBytes result (stringToLengthPrefixed ORIGINAL_DOMAIN)
                           (stringToLengthPrefixed (mainDomain strategy));
          result = fst domainResult;
          totalCount = totalCount + snd domainResult;
          newSubdomainPrefix = protocol @ subdomainPrefix strategy
      in foldl (subdomainStep newSubdomainPrefix) (result, totalCount) subdomains)"

definition patchDiscordUrl :: "bytes \<Rightarrow> bytes \<times> nat" where
  "patchDiscordUrl data =
     (let result = data;
          oldUrl = js ''.gg/hytale'';
          newUrl = js ''.gg/hf2pdc'';
          lpResult = replaceBytes result (stringToLengthPrefixed oldUrl)
                       (stringToLengthPrefixed newUrl)
      in if snd lpResult > 0 then lpResult
         else
           let oldUtf16 = stringToUtf16LE oldUrl;
               newUtf16 = stringToUtf16LE newUrl;
               positions = findAllOccurrences result oldUtf16
           in foldl (\<lambda>(result, count) pos. (bufcopy newUtf16 result pos, count + 1))
                (result, 0) positions)"

section \<open>clientPatcher.js: the patch record, the backup and \<open>patchClient\<close>\<close>

text \<open>
  The files \<open>patchClient\<close> touches, for one \<open>clientPath\<close>: the client binary, the
  flag file \<open>clientPath + '.patched_custom'\<close>, the backup \<open>clientPath + '.original'\<close>
  and the archived backups \<open>clientPath + '.original.' + timestamp\<close>. \<open>None\<close> is a
  file that does not exist. Reading, writing and copying an existing file succeed.
\<close>

record patchRecord =
  patchedAt :: jsstring
  originalDomain :: jsstring
  targetDomain :: "jsstring option"
  patchMode :: patchMode
  flagMainDomain :: jsstring
  flagSubdomainPrefix :: jsstring
  patcherVersion :: jsstring
  verified :: jsstring

text \<open>
  A flag file either fails to parse as an object (\<open>JSON.parse\<close> or the property access
  throws) or gives a record; a record written by someone else may lack \<open>targetDomain\<close>.
\<close>

datatype flagFile = Unparsable | FlagData patchRecord

record patcherFs =
  clientBinary :: "bytes option"
  patchFlagFile :: "flagFile option"
  backupFile :: "bytes option"
  archivedBackups :: "(jsstring \<times> bytes) list"

text \<open>The patcher's surroundings: the domain configuration and \<open>new Date().toISOString()\<close>.\<close>

record patcherEnv = domainEnv +
  nowISO :: jsstring

record patchStatus =
  patched :: bool
  currentDomain :: "jsstring option"
  needsRestore :: bool

definition getPatchStatus :: "'a domainEnv_scheme \<Rightarrow> patcherFs \<Rightarrow> patchStatus" where
  "getPatchStatus e fs =
     (let newDomain = getNewDomain e;
          fallthrough = \<lparr>patched = False, currentDomain = None, needsRestore = False\<rparr>
      in case patchFlagFile fs of
           None \<Rightarrow> fallthrough
         | Some Unparsable \<Rightarrow> fallthrough
         | Some (FlagData flagData) \<Rightarrow>
             let currentDomain = targetDomain flagData in
             if currentDomain = Some newDomain then
               (case clientBinary fs of
                  None \<Rightarrow> fallthrough
                | Some data \<Rightarrow>
                    let strategy = getDomainStrategy newDomain;
                        domainPattern = stringToLengthPrefixed (mainDomain strategy)
                    in if bufIncludes data domainPattern
                       then \<lparr>patched = True, currentDomain = currentDomain, needsRestore = False\<rparr>
                       else \<lparr>patched = False, currentDomain = None, needsRestore = False\<rparr>)
             else \<lparr>patched = False, currentDomain = currentDomain, needsRestore = True\<rparr>)"

definition restoreFromBackup :: "patcherFs \<Rightarrow> bool \<times> patcherFs" where
  "restoreFromBackup fs =
     (case backupFile fs of
        Some original \<Rightarrow> (True, fs\<lparr>clientBinary := Some original, patchFlagFile := None\<rparr>)
      | None \<Rightarrow> (False, fs))"

definition markAsPatched :: "patcherEnv \<Rightarrow> patcherFs \<Rightarrow> patcherFs" where
  "markAsPatched e fs =
     (let newDomain = getNewDomain e;
          strategy = getDomainStrategy newDomain;
          flagData = \<lparr>patchedAt = nowISO e,
                      originalDomain = ORIGINAL_DOMAIN,
                      targetDomain = Some newDomain,
                      patchMode = mode strategy,
                      flagMainDomain = mainDomain strategy,
                      flagSubdomainPrefix = subdomainPrefix strategy,
                      patcherVersion = js ''2.1.0'',
                      verified = js ''binary_contents''\<rparr>
      in fs\<lparr>patchFlagFile := Some (FlagData flagData)\<rparr>)"

text \<open>\<open>toISOString().replace(/[:.]/g, '-').slice(0, 19)\<close>\<close>

definition backupTimestamp :: "jsstring \<Rightarrow> jsstring" where
  "backupTimestamp stamp =
     take 19 (map (\<lambda>c. if c = of_char CHR '':'' \<or> c = of_char CHR ''.'' then of_char CHR ''-'' else c) stamp)"

text \<open>
  \<open>backupClient\<close> returns the backup path, or \<open>null\<close> when a file operation throws
  (here: the client binary is missing); the boolean says a path was returned.
\<close>

definition backupClient :: "patcherEnv \<Rightarrow> patcherFs \<Rightarrow> bool \<times> patcherFs" where
  "backupClient e fs =
     (case clientBinary fs of
        None \<Rightarrow> (False, fs)
      | Some current \<Rightarrow>
          (case backupFile fs of
             None \<Rightarrow> (True, fs\<lparr>backupFile := Some current\<rparr>)
           | Some backup \<Rightarrow>
               if length current \<noteq> length backup
               then (True, fs\<lparr>archivedBackups := archivedBackups fs @ [(backupTimestamp (nowISO e), backup)],
                               backupFile := Some current\<rparr>)
               else (True, fs)))"

text \<open>
  The result objects of \<open>patchClient\<close>:
  \<open>ClientNotFound\<close> is \<open>{success: false, error}\<close>,
  \<open>AlreadyPatched\<close> is \<open>{success: true, alreadyPatched: true, patchCount: 0}\<close>,
  \<open>PatchedLegacy n\<close> is \<open>{success: true, patchCount: n, format: 'legacy'}\<close>,
  \<open>NoOccurrencesFound\<close> is \<open>{success: true, patchCount: 0, warning: 'No occurrences found'}\<close>,
  \<open>Patched n\<close> is \<open>{success: true, patchCount: n}\<close>, and
  \<open>ReadFailed\<close> is the rejection when reading the binary throws.
\<close>

datatype patchResult =
    ClientNotFound
  | AlreadyPatched
  | PatchedLegacy nat
  | NoOccurrencesFound
  | Patched nat
  | ReadFailed

definition patchClient :: "patcherEnv \<Rightarrow> patcherFs \<Rightarrow> patchResult \<times> patcherFs" where
  "patchClient e fs =
     (let newDomain = getNewDomain e;
          strategy = getDomainStrategy newDomain
      in case clientBinary fs of
           None \<Rightarrow> (ClientNotFound, fs)
         | Some existing \<Rightarrow>
             let patchStatus = getPatchStatus e fs in
             if patched patchStatus then (AlreadyPatched, fs)
             else
               let fs = (if needsRestore patchStatus then snd (restoreFromBackup fs) else fs);
                   fs = snd (backupClient e fs)
               in case clientBinary fs of
                    None \<Rightarrow> (ReadFailed, fs)
                  | Some data \<Rightarrow>
                      let dp = applyDomainPatches data newDomain (js ''https://'');
                          patchedData = fst dp;
                          count = snd dp;
                          dc = patchDiscordUrl patchedData;
                          finalData = fst dc;
                          discordCount = snd dc
                      in if count = 0 \<and> discordCount = 0 then
                           let legacyResult = findAndReplaceDomainSmart data ORIGINAL_DOMAIN
                                                (mainDomain strategy)
                           in if snd legacyResult > 0
                              then (PatchedLegacy (snd legacyResult),
                                    markAsPatched e (fs\<lparr>clientBinary := Some (fst legacyResult)\<rparr>))
                              else (NoOccurrencesFound, fs)
                         else (Patched (count + discordCount),
                               markAsPatched e (fs\<lparr>clientBinary := Some finalData\<rparr>)))"

section \<open>versionManager.js: version strings and build numbers\<close>

text \<open>
  Build numbers are JavaScript numbers holding integers; they are modelled as unbounded
  integers, which agrees with the source as long as every number stays below \<open>2^53\<close> in
  absolute value.
\<close>

definition isDigit :: "16 word \<Rightarrow> bool" where
  "isDigit c = (48 \<le> unat c \<and> unat c \<le> 57)"

definition digitChar :: "nat \<Rightarrow> 16 word" where
  "digitChar d = of_nat (48 + d)"

definition digitVal :: "16 word \<Rightarrow> int" where
  "digitVal c = int (unat c) - 48"

text \<open>\<open>parseInt\<close> of a string of decimal digits.\<close>

definition parseDigits :: "jsstring \<Rightarrow> int" where
  "parseDigits ds = foldl (\<lambda>a c. 10 * a + digitVal c) 0 ds"

definition isHexDigit :: "16 word \<Rightarrow> bool" where
  "isHexDigit c = (isDigit c \<or> (65 \<le> unat c \<and> unat c \<le> 70) \<or> (97 \<le> unat c \<and> unat c \<le> 102))"

definition hexVal :: "16 word \<Rightarrow> int" where
  "hexVal c = (if isDigit c then int (unat c) - 48
               else if unat c \<le> 70 then int (unat c) - 55
               else int (unat c) - 87)"

definition parseHex :: "jsstring \<Rightarrow> int" where
  "parseHex ds = foldl (\<lambda>a c. 16 * a + hexVal c) 0 ds"

text \<open>The white space and line terminators that \<open>parseInt\<close> skips.\<close>

definition isWhiteSpace :: "16 word \<Rightarrow> bool" where
  "isWhiteSpace c =
     (let n = unat c in
      (9 \<le> n \<and> n \<le> 13) \<or> n = 32 \<or> n = 160 \<or> n = 5760 \<or> (8192 \<le> n \<and> n \<le> 8202)
      \<or> n = 8232 \<or> n = 8233 \<or> n = 8239 \<or> n = 8287 \<or> n = 12288 \<or> n = 65279)"

text \<open>
  \<open>parseInt(s)\<close> without a radix: leading white space, a sign, then hexadecimal digits
  after \<open>0x\<close> or \<open>0X\<close>, decimal digits otherwise. \<open>None\<close> is \<open>NaN\<close>.
\<close>

definition parseInt :: "jsstring \<Rightarrow> int option" where
  "parseInt s =
     (let s1 = dropWhile isWhiteSpace s;
          neg = (s1 \<noteq> [] \<and> hd s1 = of_char CHR ''-'');
          s2 = (if s1 \<noteq> [] \<and> (hd s1 = of_char CHR ''-'' \<or> hd s1 = of_char CHR ''+'') then tl s1 else s1);
          hex = (take 2 s2 = js ''0x'' \<or> take 2 s2 = js ''0X'');
          ds = (if hex then takeWhile isHexDigit (drop 2 s2) else takeWhile isDigit s2);
          v = (if hex then parseHex ds else parseDigits ds)
      in if ds = [] then None else Some (if neg then - v else v))"

text \<open>
  The first group of \<open>version.match(/v(\d+)/)\<close>: the digits after the leftmost \<open>v\<close>
  that a digit follows.
\<close>

fun vMatch :: "jsstring \<Rightarrow> jsstring option" where
  "vMatch [] = None"
| "vMatch (c # cs) =
     (if c = of_char CHR ''v'' \<and> cs \<noteq> [] \<and> isDigit (hd cs) then Some (takeWhile isDigit cs)
      else vMatch cs)"

text \<open>
  The first group of \<open>version.match(/(\d+)\.pwr/)\<close>: the match is tried at every start
  from the left; at a start the digits are taken greedily and \<open>.pwr\<close> must follow them
  (giving digits back cannot help, a digit would follow).
\<close>

fun pwrMatch :: "jsstring \<Rightarrow> jsstring option" where
  "pwrMatch [] = None"
| "pwrMatch (c # cs) =
     (if isDigit c \<and> take 4 (dropWhile isDigit cs) = js ''.pwr''
      then Some (c # takeWhile isDigit cs)
      else pwrMatch cs)"

fun extractVersionNumber :: "jsstring option \<Rightarrow> int" where
  "extractVersionNumber None = 0"
| "extractVersionNumber (Some version) =
     (if version = [] then 0
      else case vMatch version of
             Some d \<Rightarrow> parseDigits d
           | None \<Rightarrow>
              (case pwrMatch version of
                 Some d \<Rightarrow> parseDigits d
               | None \<Rightarrow> (case parseInt version of None \<Rightarrow> 0 | Some num \<Rightarrow> num)))"

text \<open>A number in a template string: decimal digits, with a minus sign when negative.\<close>

function decimal :: "nat \<Rightarrow> jsstring" where
  "decimal n = (if n < 10 then [digitChar n] else decimal (n div 10) @ [digitChar (n mod 10)])"
  by pat_completeness auto
termination
  by (relation "measure (\<lambda>n. n)") auto

declare decimal.simps [simp del]

definition numberToString :: "int \<Rightarrow> jsstring" where
  "numberToString i = (if i < 0 then of_char CHR ''-'' # decimal (nat (- i)) else decimal (nat i))"

record platformEnv =
  osName :: jsstring
  arch :: jsstring

definition BASE_PATCH_URL :: jsstring where
  "BASE_PATCH_URL = js ''https://game.authbp.xyz/dl''"

definition buildArchiveUrl :: "'a platformEnv_scheme \<Rightarrow> int \<Rightarrow> jsstring \<Rightarrow> jsstring" where
  "buildArchiveUrl e buildNumber branch =
     BASE_PATCH_URL @ js ''/'' @ osName e @ js ''/'' @ arch e @ js ''/'' @ branch @ js ''/0/''
       @ numberToString buildNumber @ js ''.pwr''"

record versionDetails =
  version :: jsstring
  buildNumber :: int
  buildName :: jsstring
  fullUrl :: jsstring
  differentialUrl :: "jsstring option"
  checksum :: "jsstring option"
  sourceVersion :: "jsstring option"
  isDifferential :: bool
  releaseNotes :: "jsstring option"

definition extractVersionDetails :: "'a platformEnv_scheme \<Rightarrow> jsstring \<Rightarrow> jsstring \<Rightarrow> versionDetails" where
  "extractVersionDetails e targetVersion branch =
     (let buildNumber = extractVersionNumber (Some targetVersion);
          previousBuild = buildNumber - 1;
          sourceVersion = (if previousBuild > 0 then Some (numberToString previousBuild @ js ''.pwr'') else None);
          fullUrl = buildArchiveUrl e buildNumber branch
      in \<lparr>version = targetVersion,
          buildNumber = buildNumber,
          buildName = js ''HYTALE-Build-'' @ numberToString buildNumber,
          fullUrl = fullUrl,
          differentialUrl = None,
          checksum = None,
          sourceVersion = sourceVersion,
          isDifferential = False,
          releaseNotes = None\<rparr>)"

fun canUseDifferentialUpdate :: "jsstring option \<Rightarrow> versionDetails option \<Rightarrow> bool" where
  "canUseDifferentialUpdate currentVersion None = False"
| "canUseDifferentialUpdate currentVersion (Some targetDetails) =
     (if \<not> truthy (differentialUrl targetDetails) then False
      else if \<not> isDifferential targetDetails then False
      else if \<not> truthy currentVersion then False
      else
        let currentBuild = extractVersionNumber currentVersion;
            expectedSource = extractVersionNumber (sourceVersion targetDetails)
        in currentBuild = expectedSource)"

function intermediatesLoop :: "int \<Rightarrow> int \<Rightarrow> jsstring list \<Rightarrow> jsstring list" where
  "intermediatesLoop i target intermediates =
     (if i \<le> target
      then intermediatesLoop (i + 1) target (intermediates @ [numberToString i @ js ''.pwr''])
      else intermediates)"
  by pat_completeness auto
termination
  by (relation "measure (\<lambda>(i, target, intermediates). nat (target + 1 - i))") auto

declare intermediatesLoop.simps [simp del]

definition needsIntermediatePatches :: "jsstring option \<Rightarrow> jsstring \<Rightarrow> jsstring list" where
  "needsIntermediatePatches currentVersion targetVersion =
     (if \<not> truthy currentVersion then []
      else
        let current = extractVersionNumber currentVersion;
            target = extractVersionNumber (Some targetVersion)
        in intermediatesLoop (current + 1) target [])"

section \<open>versionManager.js: the newest version, with its fallbacks\<close>













section \<open>differentialUpdateManager.js: acquiring and deploying archives\<close>

datatype error =
    UnsupportedPlatform
  | ArchiveDownloadFailed jsstring jsstring jsstring
  | ArchiveCorrupted
  | FileReadFailed jsstring
  | ArchiveNotFound jsstring
  | ToolInstallFailed jsstring
  | ToolExecutionFailed jsstring
  | DeploymentFailed jsstring
  | ConfigSaveFailed jsstring

text \<open>
  What the surroundings decide. A download either throws, leaving at the target path
  whatever the second argument says, or writes the file. The deployment tool fails to
  install, fails to start, exits with an error (its \<open>stderr\<close> and the error's message),
  or succeeds. \<open>saveConfig\<close> gives the message of the error it throws, if it does.
  The outcomes are asked per plan step (\<open>0\<close> for a single full install).
  \<open>sha256hex\<close> is the digest of \<open>crypto\<close>, \<open>toLowerCase\<close> the string method.
\<close>

datatype downloadOutcome = DownloadThrows jsstring "bytes option" | DownloadWrites bytes

datatype toolOutcome =
    InstallButlerThrows jsstring
  | ProcessError jsstring
  | ExecFails jsstring jsstring
  | ExecSucceeds

record updateEnv = platformEnv +
  sha256hex :: "bytes \<Rightarrow> jsstring"
  toLowerCase :: "jsstring \<Rightarrow> jsstring"
  retryDownload :: "nat \<Rightarrow> jsstring \<Rightarrow> downloadOutcome"
  downloadFile :: "nat \<Rightarrow> jsstring \<Rightarrow> downloadOutcome"
  butlerApply :: "nat \<Rightarrow> jsstring \<Rightarrow> toolOutcome"
  saveConfig :: "nat \<Rightarrow> jsstring option"
  CACHE_DIR :: jsstring

text \<open>
  The calls an update makes, in order; the log is kept in the state only to state
  properties of the order of calls.
\<close>

datatype event =
    AcquireCall jsstring jsstring jsstring "jsstring option"
  | DeployCall jsstring jsstring bool
  | DeployReturned jsstring
  | SaveCall jsstring

text \<open>
  The state an update works on: the files of the cache directory by path, and the
  installed-version record \<open>version_client\<close> of the config file.
\<close>

record world =
  files :: "jsstring \<Rightarrow> bytes option"
  version_client :: "jsstring option"
  trace :: "event list"

definition emit :: "event \<Rightarrow> world \<Rightarrow> world" where
  "emit ev w = w\<lparr>trace := trace w @ [ev]\<rparr>"

definition loadVersionClient :: "world \<Rightarrow> jsstring option" where
  "loadVersionClient w = version_client w"

definition getInstalledClientVersion :: "world \<Rightarrow> jsstring option" where
  "getInstalledClientVersion w = loadVersionClient w"

definition saveVersionClient :: "updateEnv \<Rightarrow> nat \<Rightarrow> world \<Rightarrow> jsstring \<Rightarrow> (error + unit) \<times> world" where
  "saveVersionClient e i w versionClient =
     (case saveConfig e i of
        None \<Rightarrow> (Inr (), w\<lparr>version_client := Some versionClient\<rparr>)
      | Some msg \<Rightarrow> (Inl (ConfigSaveFailed msg), w))"

definition computeFileChecksum :: "updateEnv \<Rightarrow> world \<Rightarrow> jsstring \<Rightarrow> error + jsstring" where
  "computeFileChecksum e w filePath =
     (case files w filePath of
        None \<Rightarrow> Inl (FileReadFailed filePath)
      | Some content \<Rightarrow> Inr (sha256hex e content))"

definition validateChecksum :: "updateEnv \<Rightarrow> world \<Rightarrow> jsstring \<Rightarrow> jsstring option \<Rightarrow> error + bool" where
  "validateChecksum e w filePath expectedChecksum =
     (if \<not> truthy expectedChecksum then Inr True
      else case computeFileChecksum e w filePath of
             Inl err \<Rightarrow> Inl err
           | Inr actualChecksum \<Rightarrow> Inr (Some actualChecksum = expectedChecksum))"

definition unlink :: "jsstring \<Rightarrow> world \<Rightarrow> world" where
  "unlink filePath w = w\<lparr>files := (files w)(filePath := None)\<rparr>"

text \<open>
  The cache check that opens \<open>acquireGameArchive\<close>: \<open>Inr True\<close> when a valid cached
  archive is returned at once, \<open>Inr False\<close> when the download goes ahead.
\<close>

definition checkCachedArchive :: "updateEnv \<Rightarrow> world \<Rightarrow> jsstring \<Rightarrow> jsstring option \<Rightarrow> (error + bool) \<times> world" where
  "checkCachedArchive e w targetPath checksum' =
     (case files w targetPath of
        None \<Rightarrow> (Inr False, w)
      | Some content \<Rightarrow>
          if length content > 1024 * 1024 then
            (case validateChecksum e w targetPath checksum' of
               Inl err \<Rightarrow> (Inl err, w)
             | Inr isValid \<Rightarrow> if isValid then (Inr True, w) else (Inr False, unlink targetPath w))
          else (Inr False, w))"

definition acquireGameArchive ::
  "updateEnv \<Rightarrow> nat \<Rightarrow> world \<Rightarrow> jsstring \<Rightarrow> jsstring \<Rightarrow> jsstring option \<Rightarrow> bool \<Rightarrow> (error + jsstring) \<times> world" where
  "acquireGameArchive e i w downloadUrl targetPath checksum' allowRetry =
     (if osName e = js ''darwin'' \<and> arch e = js ''amd64'' then (Inl UnsupportedPlatform, w)
      else case checkCachedArchive e w targetPath checksum' of
             (Inl err, w1) \<Rightarrow> (Inl err, w1)
           | (Inr True, w1) \<Rightarrow> (Inr targetPath, w1)
           | (Inr False, w1) \<Rightarrow>
               (case (if allowRetry then retryDownload e i downloadUrl else downloadFile e i downloadUrl) of
                  DownloadThrows msg leftover \<Rightarrow>
                    (Inl (ArchiveDownloadFailed msg downloadUrl targetPath),
                     w1\<lparr>files := (files w1)(targetPath := leftover)\<rparr>)
                | DownloadWrites content \<Rightarrow>
                    let w2 = w1\<lparr>files := (files w1)(targetPath \<mapsto> content)\<rparr> in
                    (case validateChecksum e w2 targetPath checksum' of
                       Inl err \<Rightarrow> (Inl err, w2)
                     | Inr isValid \<Rightarrow>
                         if \<not> isValid then (Inl ArchiveCorrupted, unlink targetPath w2)
                         else (Inr targetPath, w2))))"

definition strIncludes :: "jsstring \<Rightarrow> jsstring \<Rightarrow> bool" where
  "strIncludes s t = (indexOfFrom s t \<noteq> None)"

definition deployGameArchive ::
  "updateEnv \<Rightarrow> nat \<Rightarrow> world \<Rightarrow> jsstring \<Rightarrow> bool \<Rightarrow> (error + unit) \<times> world" where
  "deployGameArchive e i w archivePath isDifferential' =
     (if archivePath = [] \<or> files w archivePath = None then (Inl (ArchiveNotFound archivePath), w)
      else case butlerApply e i archivePath of
             InstallButlerThrows msg \<Rightarrow> (Inl (ToolInstallFailed msg), w)
           | ProcessError msg \<Rightarrow> (Inl (ToolExecutionFailed msg), w)
           | ExecFails stderr errMessage \<Rightarrow>
               let errorText = toLowerCase e (stderr @ js '' '' @ errMessage) in
               if strIncludes errorText (js ''unexpected eof'')
               then (Inl (DeploymentFailed (js ''Corrupted archive detected. Please retry download.'')),
                     unlink archivePath w)
               else if strIncludes errorText (js ''permission denied'')
               then (Inl (DeploymentFailed (js ''Permission denied. Check file permissions and try again.'')), w)
               else if strIncludes errorText (js ''no space left'') \<or> strIncludes errorText (js ''device full'')
               then (Inl (DeploymentFailed (js ''Insufficient disk space. Free up space and try again.'')), w)
               else (Inl (DeploymentFailed (js ''Game deployment failed'')), w)
           | ExecSucceeds \<Rightarrow> (Inr (), w))"

section \<open>differentialUpdateManager.js: \<open>performIntelligentUpdate\<close>\<close>

text \<open>
  \<open>path.basename\<close> and \<open>path.join\<close> on POSIX paths: the last component (trailing
  slashes dropped), and the two parts around one separator. \<open>path.join\<close> also
  normalises its result; \<open>pathJoin\<close> is that result for a directory and a name without
  \<open>.\<close> or \<open>..\<close> components and without doubled or trailing separators. On Windows
  the separator is a backslash.
\<close>

definition basename :: "jsstring \<Rightarrow> jsstring" where
  "basename p =
     rev (takeWhile (\<lambda>c. c \<noteq> of_char CHR ''/'')
            (dropWhile (\<lambda>c. c = of_char CHR ''/'') (rev p)))"

definition pathJoin :: "jsstring \<Rightarrow> jsstring \<Rightarrow> jsstring" where
  "pathJoin dir name = dir @ js ''/'' @ name"

text \<open>
  The full install that both the pre-release branch and the first-install branch of
  \<open>performIntelligentUpdate\<close> spell out: full archive, no checksum, then the version is
  saved.
\<close>

definition fullInstall :: "updateEnv \<Rightarrow> world \<Rightarrow> jsstring \<Rightarrow> jsstring \<Rightarrow> (error + unit) \<times> world" where
  "fullInstall e w targetVersion branch =
     (let versionDetails = extractVersionDetails e targetVersion branch;
          archiveName = basename (fullUrl versionDetails);
          archivePath = pathJoin (CACHE_DIR e) (branch @ js ''_'' @ archiveName);
          w = emit (AcquireCall targetVersion (fullUrl versionDetails) archivePath None) w
      in case acquireGameArchive e 0 w (fullUrl versionDetails) archivePath None True of
           (Inl err, w) \<Rightarrow> (Inl err, w)
         | (Inr p, w) \<Rightarrow>
             (case deployGameArchive e 0 (emit (DeployCall targetVersion archivePath False) w)
                     archivePath False of
                (Inl err, w) \<Rightarrow> (Inl err, w)
              | (Inr u, w) \<Rightarrow>
                  saveVersionClient e 0 (emit (SaveCall targetVersion) (emit (DeployReturned targetVersion) w))
                    targetVersion))"

text \<open>
  The body of the loop over \<open>patchesToApply\<close>, for the step \<open>i\<close> and the version
  details of \<open>patchVersion\<close>. The installed version is read again at every step.
\<close>

definition applyPatchStep ::
  "updateEnv \<Rightarrow> jsstring \<Rightarrow> nat \<Rightarrow> world \<Rightarrow> jsstring \<Rightarrow> versionDetails \<Rightarrow> (error + unit) \<times> world" where
  "applyPatchStep e branch i w patchVersion versionDetails =
     (let canDifferential = canUseDifferentialUpdate (getInstalledClientVersion w) (Some versionDetails) in
      if \<not> canDifferential \<or> \<not> truthy (differentialUrl versionDetails) then
        let archiveName = basename (fullUrl versionDetails);
            archivePath = pathJoin (CACHE_DIR e) (branch @ js ''_'' @ archiveName);
            w = emit (AcquireCall patchVersion (fullUrl versionDetails) archivePath None) w
        in case acquireGameArchive e i w (fullUrl versionDetails) archivePath None True of
             (Inl err, w) \<Rightarrow> (Inl err, w)
           | (Inr p, w) \<Rightarrow>
               (case deployGameArchive e i (emit (DeployCall patchVersion archivePath False) w)
                       archivePath False of
                  (Inl err, w) \<Rightarrow> (Inl err, w)
                | (Inr u, w) \<Rightarrow>
                    saveVersionClient e i (emit (SaveCall patchVersion) (emit (DeployReturned patchVersion) w))
                      patchVersion)
      else
        let url = the (differentialUrl versionDetails);
            archiveName = basename url;
            archivePath = pathJoin (CACHE_DIR e) (branch @ js ''_patch_'' @ archiveName);
            w = emit (AcquireCall patchVersion url archivePath (checksum versionDetails)) w
        in case acquireGameArchive e i w url archivePath (checksum versionDetails) True of
             (Inl err, w) \<Rightarrow> (Inl err, w)
           | (Inr p, w) \<Rightarrow>
               (case deployGameArchive e i (emit (DeployCall patchVersion archivePath True) w)
                       archivePath True of
                  (Inl err, w) \<Rightarrow> (Inl err, w)
                | (Inr u, w) \<Rightarrow>
                    let w = emit (DeployReturned patchVersion) w;
                        w = (if files w archivePath \<noteq> None then unlink archivePath w else w)
                    in saveVersionClient e i (emit (SaveCall patchVersion) w) patchVersion))"

fun patchLoop :: "updateEnv \<Rightarrow> jsstring \<Rightarrow> nat \<Rightarrow> world \<Rightarrow> jsstring list \<Rightarrow> (error + unit) \<times> world" where
  "patchLoop e branch i w [] = (Inr (), w)"
| "patchLoop e branch i w (patchVersion # rest) =
     (case applyPatchStep e branch i w patchVersion (extractVersionDetails e patchVersion branch) of
        (Inl err, w1) \<Rightarrow> (Inl err, w1)
      | (Inr u, w1) \<Rightarrow> patchLoop e branch (i + 1) w1 rest)"

definition performIntelligentUpdate :: "updateEnv \<Rightarrow> world \<Rightarrow> jsstring \<Rightarrow> jsstring \<Rightarrow> (error + unit) \<times> world" where
  "performIntelligentUpdate e w targetVersion branch =
     (let currentVersion = getInstalledClientVersion w in
      if branch \<noteq> js ''release'' then fullInstall e w targetVersion branch
      else if \<not> truthy currentVersion then fullInstall e w targetVersion branch
      else
        let patchesToApply = needsIntermediatePatches currentVersion targetVersion in
        if length patchesToApply = 0 then (Inr (), w)
        else patchLoop e branch 0 w patchesToApply)"

section \<open>Reading the steps of the patcher\<close>

text \<open>
  The state in which \<open>patchClient\<close> reads the binary when it is not yet patched: after
  the restore, if one is needed, and the backup. \<open>findsNothing\<close> says that none of the
  three searches of \<open>patchClient\<close> finds an occurrence in the data.
\<close>

definition prepared :: "patcherEnv \<Rightarrow> patcherFs \<Rightarrow> patcherFs" where
  "prepared e fs =
     snd (backupClient e (if needsRestore (getPatchStatus e fs) then snd (restoreFromBackup fs) else fs))"

definition findsNothing :: "patcherEnv \<Rightarrow> bytes \<Rightarrow> bool" where
  "findsNothing e data =
     (let dp = applyDomainPatches data (getNewDomain e) (js ''https://'') in
      snd dp = 0 \<and> snd (patchDiscordUrl (fst dp)) = 0
      \<and> snd (findAndReplaceDomainSmart data ORIGINAL_DOMAIN
                (mainDomain (getDomainStrategy (getNewDomain e)))) = 0)"

section \<open>Reading the log of calls\<close>

text \<open>
  \<open>savesFollowDeploys\<close> checks a log: every \<open>SaveCall v\<close> comes directly after
  \<open>DeployReturned v\<close>, the return of the deployment of the same version, with no other
  call in between. \<open>deployedVersions\<close> lists the versions whose deployment returned,
  \<open>newEvents\<close> is what a run added to the log, and \<open>isSaveError\<close> says that a run
  stopped because saving the config failed.
\<close>

fun savesFollowDeploys :: "jsstring option \<Rightarrow> event list \<Rightarrow> bool" where
  "savesFollowDeploys pending [] = True"
| "savesFollowDeploys pending (DeployReturned v # es) = savesFollowDeploys (Some v) es"
| "savesFollowDeploys pending (SaveCall v # es) = (pending = Some v \<and> savesFollowDeploys None es)"
| "savesFollowDeploys pending (AcquireCall v u p c # es) = savesFollowDeploys None es"
| "savesFollowDeploys pending (DeployCall v p d # es) = savesFollowDeploys None es"

fun deployedVersions :: "event list \<Rightarrow> jsstring list" where
  "deployedVersions [] = []"
| "deployedVersions (DeployReturned v # es) = v # deployedVersions es"
| "deployedVersions (AcquireCall v u p c # es) = deployedVersions es"
| "deployedVersions (DeployCall v p d # es) = deployedVersions es"
| "deployedVersions (SaveCall v # es) = deployedVersions es"

definition newEvents :: "world \<Rightarrow> world \<Rightarrow> event list" where
  "newEvents w w' = drop (length (trace w)) (trace w')"

definition isSaveError :: "error + unit \<Rightarrow> bool" where
  "isSaveError r = (case r of Inl (ConfigSaveFailed m) \<Rightarrow> True | _ \<Rightarrow> False)"

text \<open>The calls of a step that installs the full archive of a version and saves it.\<close>

definition fullStepEvents :: "updateEnv \<Rightarrow> jsstring \<Rightarrow> jsstring \<Rightarrow> event list" where
  "fullStepEvents e branch v =
     (let d = extractVersionDetails e v branch;
          archivePath = pathJoin (CACHE_DIR e) (branch @ js ''_'' @ basename (fullUrl d))
      in [AcquireCall v (fullUrl d) archivePath None, DeployCall v archivePath False,
          DeployReturned v, SaveCall v])"

text \<open>
  How a step that acquires with the call \<open>A\<close> and deploys with the call \<open>D\<close> can end:
  saved, stopped by the save, or stopped by the acquisition or the deployment.
\<close>

definition stepEnds :: "event \<Rightarrow> event \<Rightarrow> jsstring \<Rightarrow> error + unit \<Rightarrow> world \<Rightarrow> world \<Rightarrow> bool" where
  "stepEnds A D v res w w' =
     (let evs = newEvents w w' in
      trace w' = trace w @ evs \<and>
      ((res = Inr () \<and> evs = [A, D, DeployReturned v, SaveCall v] \<and> version_client w' = Some v)
       \<or> (isSaveError res \<and> evs = [A, D, DeployReturned v, SaveCall v]
           \<and> version_client w' = version_client w)
       \<or> (isl res \<and> \<not> isSaveError res \<and> (evs = [A] \<or> evs = [A, D])
           \<and> version_client w' = version_client w)))"

section \<open>Concrete surroundings for the examples\<close>

text \<open>
  A Linux machine with an empty cache and version \<open>5.pwr\<close> installed; the download of
  \<open>u1\<close> writes a file whose digest is \<open>good\<close>, any other download one whose digest is
  \<open>other\<close>.
\<close>

definition e6 :: updateEnv where
  "e6 = \<lparr>osName = js ''linux'', arch = js ''amd64'',
          sha256hex = (\<lambda>b. if b = [1, 2, 3] then js ''good'' else js ''other''),
          toLowerCase = (\<lambda>s. s),
          retryDownload = (\<lambda>i u. if u = js ''u1'' then DownloadWrites [1, 2, 3] else DownloadWrites [9]),
          downloadFile = (\<lambda>i u. DownloadWrites [9]),
          butlerApply = (\<lambda>i p. ExecSucceeds),
          saveConfig = (\<lambda>i. None),
          CACHE_DIR = js ''/cache''\<rparr>"

definition w6 :: world where
  "w6 = \<lparr>files = (\<lambda>p. None), version_client = Some (js ''5.pwr''), trace = []\<rparr>"

text \<open>
  The same machine with a deployment tool that runs out of disk space at the third
  step, and version details of \<open>6.pwr\<close> that carry a differential from \<open>5.pwr\<close>.
\<close>

definition e1 :: updateEnv where
  "e1 = e6\<lparr>butlerApply := (\<lambda>i p. if i = 2 then ExecFails (js ''write failed'') (js ''no space left on device'')
                               else ExecSucceeds)\<rparr>"








text \<open>
  The patcher configured for the default domain, and a client binary with no flag file
  and no backup beside it.
\<close>

definition ePatch :: patcherEnv where
  "ePatch = \<lparr>HYTALE_AUTH_DOMAIN = None, getAuthDomain = Inr (js ''auth.sanasol.ws''),
              nowISO = js ''2026-01-01T00:00:00.000Z''\<rparr>"

definition freshClient :: "bytes \<Rightarrow> patcherFs" where
  "freshClient b = \<lparr>clientBinary = Some b, patchFlagFile = None, backupFile = None, archivedBackups = []\<rparr>"

text \<open>
  A client binary that holds the Discord link in length-prefixed form and the original
  domain in UTF-16LE, and the files beside it after a first and after a second call of
  \<open>patchClient\<close>.
\<close>

definition discordAndWideDomain :: bytes where
  "discordAndWideDomain = stringToLengthPrefixed (js ''.gg/hytale'') @ stringToUtf16LE ORIGINAL_DOMAIN"

definition afterFirstCall :: patcherFs where
  "afterFirstCall =
     markAsPatched ePatch
       \<lparr>clientBinary = Some (stringToLengthPrefixed (js ''.gg/hf2pdc'') @ stringToUtf16LE (js ''hytale.com'')),
        patchFlagFile = None,
        backupFile = Some discordAndWideDomain,
        archivedBackups = []\<rparr>"

definition afterSecondCall :: patcherFs where
  "afterSecondCall =
     afterFirstCall
       \<lparr>clientBinary := Some (stringToLengthPrefixed (js ''.gg/hf2pdc'') @ stringToUtf16LE (js ''anasol.wos''))\<rparr>"

section \<open>Properties of the string encodings\<close>

lemma length_interleave: "str \<noteq> [] \<Longrightarrow> length (interleave str) = 2 * length str - 1"
  by (induction str rule: interleave.induct) auto

lemma lpFill_closed:
  "str \<noteq> [] \<Longrightarrow> pos + 2 * length str - 1 \<le> length result \<Longrightarrow>
   lpFill str pos result = take pos result @ interleave str @ drop (pos + 2 * length str - 1) result"
proof (induction str pos result rule: lpFill.induct)
  case (1 pos result)
  then show ?case by simp
next
  case (2 c pos result)
  then show ?case by (simp add: upd_conv_take_nth_drop)
next
  case (3 c d cs pos result)
  let ?r = "result[pos := ucast c, pos + 1 := 0]"
  have a: "take (pos + 2) ?r = take pos result @ [ucast c, 0]"
    using 3(3) by (simp add: take_Suc_conv_app_nth take_update_swap nth_list_update list_update_append)
  have b: "drop (pos + 2 + 2 * length (d # cs) - 1) ?r = drop (pos + 2 * length (c # d # cs) - 1) result"
    by simp
  have "lpFill (c # d # cs) pos result = lpFill (d # cs) (pos + 2) ?r" by simp
  also have "\<dots> = take (pos + 2) ?r @ interleave (d # cs) @ drop (pos + 2 + 2 * length (d # cs) - 1) ?r"
    using 3 by (intro 3(1)) simp_all
  finally show ?case using a b by simp
qed

lemma stringToLengthPrefixed_closed:
  assumes "str \<noteq> []"
  shows "stringToLengthPrefixed str = of_nat (length str) # 0 # 0 # 0 # interleave str"
proof -
  obtain n where n: "length str = Suc n" using assms by (cases str) auto
  let ?r = "(replicate (4 + 2 * n + 1) (0::byte))[0 := of_nat (Suc n), 1 := 0, 2 := 0, 3 := 0]"
  have alloc: "nat (4 + int (length str) + (int (length str) - 1)) = 4 + 2 * n + 1"
    using n by simp
  have t: "take 4 ?r = [of_nat (Suc n), 0, 0, 0]"
    by (simp add: numeral_eq_Suc replicate_app_Cons_same)
  have "stringToLengthPrefixed str = lpFill str 4 ?r"
    using alloc by (simp only: stringToLengthPrefixed_def Let_def n)
  also have "\<dots> = take 4 ?r @ interleave str @ drop (4 + 2 * length str - 1) ?r"
    using assms n by (intro lpFill_closed) simp_all
  also have "drop (4 + 2 * length str - 1) ?r = []" using n by simp
  finally show ?thesis using t n by simp
qed

lemma interleave_even: "i < length str \<Longrightarrow> interleave str ! (2 * i) = ucast (str ! i)"
proof (induction str arbitrary: i rule: interleave.induct)
  case 1 then show ?case by simp
next
  case (2 c) then show ?case by simp
next
  case (3 c d cs)
  then show ?case by (cases i) simp_all
qed

lemma interleave_odd: "Suc i < length str \<Longrightarrow> interleave str ! (2 * i + 1) = 0"
proof (induction str arbitrary: i rule: interleave.induct)
  case 1 then show ?case by simp
next
  case (2 c) then show ?case by simp
next
  case (3 c d cs)
  then show ?case by (cases i) simp_all
qed

lemma u32le_small: "n \<le> 255 \<Longrightarrow> u32le n = [of_nat n, 0, 0, 0]"
  by (simp add: u32le_def)


text \<open>
  Claim C7, as the code has it. For every non-empty string \<open>s\<close> of at most 255 characters,
  \<open>stringToLengthPrefixed s\<close> has exactly \<open>4 + |s| + (|s| - 1)\<close> bytes; its first four
  bytes are \<open>|s|\<close> as a 32-bit little-endian integer; the payload after them holds at
  every even offset \<open>2 i\<close> the low byte of the \<open>i\<close>-th character (the character code
  itself when it is below 256), and a zero byte after every character but the last, so
  that no zero follows the final character.
\<close>

theorem stringToLengthPrefixed_layout:
  assumes "s \<noteq> []" and "length s \<le> 255"
  shows "length (stringToLengthPrefixed s) = 4 + length s + (length s - 1)
       \<and> take 4 (stringToLengthPrefixed s) = u32le (length s)
       \<and> drop 4 (stringToLengthPrefixed s) = interleave s
       \<and> (\<forall>i < length s. stringToLengthPrefixed s ! (4 + 2 * i) = ucast (s ! i))
       \<and> (\<forall>i. i + 1 < length s \<longrightarrow> stringToLengthPrefixed s ! (4 + 2 * i + 1) = 0)"
proof -
  have c: "stringToLengthPrefixed s = of_nat (length s) # 0 # 0 # 0 # interleave s"
    using assms(1) by (rule stringToLengthPrefixed_closed)
  have l: "length (stringToLengthPrefixed s) = 4 + length s + (length s - 1)"
    using assms(1) by (simp add: c length_interleave)
  have t: "take 4 (stringToLengthPrefixed s) = u32le (length s)"
    using assms(2) by (simp add: c u32le_small)
  have d: "drop 4 (stringToLengthPrefixed s) = interleave s"
    by (simp add: c)
  have n4: "4 \<le> length (stringToLengthPrefixed s)" using l by simp
  have nth: "stringToLengthPrefixed s ! (4 + k) = interleave s ! k" for k
    using nth_drop[OF n4, of k] d by simp
  have e: "\<forall>i < length s. stringToLengthPrefixed s ! (4 + 2 * i) = ucast (s ! i)"
    using nth[of "2 * i" for i] by (simp add: interleave_even)
  have o: "\<forall>i. i + 1 < length s \<longrightarrow> stringToLengthPrefixed s ! (4 + 2 * i + 1) = 0"
  proof (intro allI impI)
    fix i assume "i + 1 < length s"
    then have "interleave s ! (2 * i + 1) = 0" by (intro interleave_odd) simp
    then show "stringToLengthPrefixed s ! (4 + 2 * i + 1) = 0"
      using nth[of "2 * i + 1"] by (simp add: add.assoc)
  qed
  show ?thesis using l t d e o by blast
qed


text \<open>The encoding of \<open>hytale.com\<close>: 23 bytes, prefix \<open>10 0 0 0\<close>, then \<open>h\<close>, zero.\<close>

theorem stringToLengthPrefixed_layout_witness:
  "js ''hytale.com'' \<noteq> [] \<and> length (js ''hytale.com'') \<le> 255
   \<and> length (stringToLengthPrefixed (js ''hytale.com'')) = 23
   \<and> take 4 (stringToLengthPrefixed (js ''hytale.com'')) = [10, 0, 0, 0]
   \<and> stringToLengthPrefixed (js ''hytale.com'') ! 4 = 104
   \<and> stringToLengthPrefixed (js ''hytale.com'') ! 5 = 0"
proof -
  have h1: "js ''hytale.com'' \<noteq> []" by (simp add: js_def)
  have h2: "length (js ''hytale.com'') \<le> 255" by (simp add: js_def)
  have n: "length (js ''hytale.com'') = 10" by (simp add: js_def)
  have z: "js ''hytale.com'' ! 0 = 104" by (simp add: js_def)
  have u: "u32le 10 = [10, 0, 0, 0]" by (simp add: u32le_def)
  note t = stringToLengthPrefixed_layout [OF h1 h2]
  from t have a: "\<forall>i < length (js ''hytale.com''). stringToLengthPrefixed (js ''hytale.com'') ! (4 + 2 * i) = ucast (js ''hytale.com'' ! i)"
    by blast
  from t have b: "\<forall>i. i + 1 < length (js ''hytale.com'') \<longrightarrow> stringToLengthPrefixed (js ''hytale.com'') ! (4 + 2 * i + 1) = 0"
    by blast
  have a0: "stringToLengthPrefixed (js ''hytale.com'') ! 4 = 104"
    using a[rule_format, of 0] n z by simp
  have b0: "stringToLengthPrefixed (js ''hytale.com'') ! 5 = 0"
    using b[rule_format, of 0] n by simp
  from t have l: "length (stringToLengthPrefixed (js ''hytale.com'')) = 4 + length (js ''hytale.com'') + (length (js ''hytale.com'') - 1)"
    by blast
  from t have p: "take 4 (stringToLengthPrefixed (js ''hytale.com'')) = u32le (length (js ''hytale.com''))"
    by blast
  from l p n u a0 b0 h1 h2 show ?thesis by simp
qed


text \<open>
  Claim C7 as stated fails for a string of 256 characters: only the low byte of the
  length is stored, so the prefix reads \<open>0 0 0 0\<close> where the 32-bit little-endian
  encoding of 256 is \<open>0 1 0 0\<close>.
\<close>

theorem length_prefix_wraps_at_256:
  "length (replicate 256 (97 :: 16 word)) = 256
   \<and> take 4 (stringToLengthPrefixed (replicate 256 97)) = [0, 0, 0, 0]
   \<and> u32le 256 = [0, 1, 0, 0]"
proof -
  have "stringToLengthPrefixed (replicate 256 97)
          = of_nat (length (replicate 256 (97 :: 16 word))) # 0 # 0 # 0 # interleave (replicate 256 97)"
    by (rule stringToLengthPrefixed_closed) simp
  then have a: "take 4 (stringToLengthPrefixed (replicate 256 97)) = [0, 0, 0, 0]"
    by simp
  have b: "u32le 256 = [0, 1, 0, 0]" by (simp add: u32le_def)
  show ?thesis using a b by simp
qed

section \<open>Properties of the domain strategy\<close>

text \<open>
  Claim C8. A domain of at most 10 characters gets the direct mode, with the whole
  domain as main domain and an empty subdomain prefix; a domain of 11 to 16 characters
  gets the split mode, with its first 6 characters as subdomain prefix and the rest as
  main domain; and whenever the configured domain (what \<open>getTargetDomain\<close> gives) is
  shorter than 4 or longer than 16 characters, \<open>getNewDomain\<close> gives the built-in
  default domain instead.
\<close>

theorem domain_length_boundaries:
  "(\<forall>domain. length domain \<le> 10 \<longrightarrow>
       getDomainStrategy domain = \<lparr>mode = direct, mainDomain = domain, subdomainPrefix = []\<rparr>)
   \<and> (\<forall>domain. 11 \<le> length domain \<and> length domain \<le> 16 \<longrightarrow>
       getDomainStrategy domain
         = \<lparr>mode = split, mainDomain = drop 6 domain, subdomainPrefix = take 6 domain\<rparr>
       \<and> length (take 6 domain) = 6)
   \<and> (\<forall>e :: domainEnv. length (getTargetDomain e) < 4 \<or> length (getTargetDomain e) > 16 \<longrightarrow>
       getNewDomain e = DEFAULT_NEW_DOMAIN)"
  by (simp add: getDomainStrategy_def getNewDomain_def Let_def MIN_DOMAIN_LENGTH_def
        MAX_DOMAIN_LENGTH_def)

text \<open>
  Lengths 10 and 11 on the two sides of the boundary, and configured domains of length
  3 and 17 replaced by \<open>auth.sanasol.ws\<close>.
\<close>

theorem domain_length_boundaries_witness:
  "getDomainStrategy (js ''sanasol.ws'')
     = \<lparr>mode = direct, mainDomain = js ''sanasol.ws'', subdomainPrefix = []\<rparr>
   \<and> getDomainStrategy (js ''a.sanasol.ws'')
     = \<lparr>mode = split, mainDomain = js ''sol.ws'', subdomainPrefix = js ''a.sana''\<rparr>
   \<and> getNewDomain \<lparr>HYTALE_AUTH_DOMAIN = Some (js ''a.b''), getAuthDomain = Inr (js ''auth.example.org'')\<rparr>
     = js ''auth.sanasol.ws''
   \<and> getNewDomain \<lparr>HYTALE_AUTH_DOMAIN = None, getAuthDomain = Inr (js ''auth.example1.org'')\<rparr>
     = js ''auth.sanasol.ws''"
proof -
  let ?e3 = "\<lparr>HYTALE_AUTH_DOMAIN = Some (js ''a.b''), getAuthDomain = Inr (js ''auth.example.org'')\<rparr>"
  let ?e17 = "\<lparr>HYTALE_AUTH_DOMAIN = None, getAuthDomain = Inr (js ''auth.example1.org'')\<rparr>"
  have h10: "length (js ''sanasol.ws'') \<le> 10" by (simp add: js_def)
  have h11: "11 \<le> length (js ''a.sanasol.ws'') \<and> length (js ''a.sanasol.ws'') \<le> 16"
    by (simp add: js_def)
  have h3: "length (getTargetDomain ?e3) < 4 \<or> length (getTargetDomain ?e3) > 16"
    by (simp add: getTargetDomain_def js_def)
  have h17: "length (getTargetDomain ?e17) < 4 \<or> length (getTargetDomain ?e17) > 16"
    by (simp add: getTargetDomain_def js_def)
  note t = domain_length_boundaries
  from t h10 have a: "getDomainStrategy (js ''sanasol.ws'')
     = \<lparr>mode = direct, mainDomain = js ''sanasol.ws'', subdomainPrefix = []\<rparr>" by blast
  from t h11 have b: "getDomainStrategy (js ''a.sanasol.ws'')
     = \<lparr>mode = split, mainDomain = drop 6 (js ''a.sanasol.ws''), subdomainPrefix = take 6 (js ''a.sanasol.ws'')\<rparr>"
    by blast
  from t h3 have c: "getNewDomain ?e3 = DEFAULT_NEW_DOMAIN" by blast
  from t h17 have d: "getNewDomain ?e17 = DEFAULT_NEW_DOMAIN" by blast
  from a b c d show ?thesis by (simp add: js_def DEFAULT_NEW_DOMAIN_def)
qed

section \<open>A patch pass keeps the length of the binary\<close>

lemma length_bufcopy: "length (bufcopy source target targetStart) = length target"
  by (simp add: bufcopy_def)

lemma length_foldl_step:
  assumes "\<And>rc pos. length (fst (f rc pos)) = length (fst rc)"
  shows "length (fst (foldl f rc positions)) = length (fst rc)"
  using assms by (induction positions arbitrary: rc) simp_all

lemma length_replaceBytes: "length (fst (replaceBytes buffer oldBytes newBytes)) = length buffer"
proof (cases "length newBytes > length oldBytes")
  case True
  then show ?thesis by (simp add: replaceBytes_def)
next
  case False
  have "length (fst (foldl (\<lambda>(result, count) pos. (bufcopy newBytes result pos, count + 1))
                       (buffer, 0::nat) (findAllOccurrences buffer oldBytes))) = length (fst (buffer, 0::nat))"
    by (rule length_foldl_step) (simp add: length_bufcopy split_beta)
  with False show ?thesis by (simp add: replaceBytes_def Let_def)
qed

lemma length_smartStep: "length (fst (smartStep n ol nn nl rc pos)) = length (fst rc)"
  by (simp add: smartStep_def Let_def length_bufcopy)

lemma length_findAndReplaceDomainSmart:
  "length (fst (findAndReplaceDomainSmart data oldDomain newDomain)) = length data"
proof -
  have "length (fst (foldl (smartStep n ol nn nl) (data, 0::nat) ps)) = length (fst (data, 0::nat))"
    for n ol nn nl ps
    by (rule length_foldl_step) (rule length_smartStep)
  then show ?thesis by (simp add: findAndReplaceDomainSmart_def Let_def)
qed

lemma length_subdomainStep: "length (fst (subdomainStep p rt sub)) = length (fst rt)"
  by (simp add: subdomainStep_def Let_def length_replaceBytes)

lemma length_applyDomainPatches:
  "length (fst (applyDomainPatches data domain protocol)) = length data"
proof -
  have "length (fst (foldl (subdomainStep p) rt subdomains)) = length (fst rt)" for p rt
    by (rule length_foldl_step) (rule length_subdomainStep)
  then show ?thesis by (simp add: applyDomainPatches_def Let_def length_replaceBytes)
qed

lemma length_patchDiscordUrl: "length (fst (patchDiscordUrl data)) = length data"
proof -
  have "length (fst (foldl (\<lambda>(result, count) pos. (bufcopy nb result pos, count + 1))
                       (data, 0::nat) ps)) = length (fst (data, 0::nat))" for nb ps
    by (rule length_foldl_step) (simp add: length_bufcopy split_beta)
  then show ?thesis by (simp add: patchDiscordUrl_def Let_def length_replaceBytes)
qed

text \<open>
  Claim C9. \<open>replaceBytes\<close>, \<open>findAndReplaceDomainSmart\<close>, \<open>applyDomainPatches\<close> and
  \<open>patchDiscordUrl\<close> each return a buffer of exactly the length of their input, and
  \<open>replaceBytes\<close> with a new pattern longer than the old one returns the input
  unchanged with count 0.
\<close>

theorem patch_pass_keeps_length:
  "length (fst (replaceBytes buffer oldBytes newBytes)) = length buffer
   \<and> length (fst (findAndReplaceDomainSmart data oldDomain newDomain)) = length data
   \<and> length (fst (applyDomainPatches data domain protocol)) = length data
   \<and> length (fst (patchDiscordUrl data)) = length data
   \<and> (length newBytes > length oldBytes \<longrightarrow> replaceBytes buffer oldBytes newBytes = (buffer, 0))"
proof -
  have skip: "length newBytes > length oldBytes \<longrightarrow> replaceBytes buffer oldBytes newBytes = (buffer, 0)"
    by (simp add: replaceBytes_def)
  show ?thesis
    using skip length_replaceBytes length_findAndReplaceDomainSmart length_applyDomainPatches
      length_patchDiscordUrl by blast
qed

text \<open>
  A two-byte replacement for a one-byte pattern is skipped, and patching the 23 bytes
  of the encoded original domain gives 23 bytes.
\<close>

theorem patch_pass_keeps_length_witness:
  "length [3, 4 :: byte] > length [1 :: byte]
   \<and> replaceBytes [1, 2, 1] [1] [3, 4] = ([1, 2, 1], 0)
   \<and> length (fst (applyDomainPatches (stringToLengthPrefixed ORIGINAL_DOMAIN) (js ''auth.sanasol.ws'') (js ''https://''))) = 23"
proof -
  have h: "length [3, 4 :: byte] > length [1 :: byte]" by simp
  have n: "length (stringToLengthPrefixed ORIGINAL_DOMAIN) = 23" by code_simp
  from patch_pass_keeps_length [of "[1, 2, 1]" "[1]" "[3, 4]" "stringToLengthPrefixed ORIGINAL_DOMAIN"
         ORIGINAL_DOMAIN ORIGINAL_DOMAIN "js ''auth.sanasol.ws''" "js ''https://''"] h n
  show ?thesis by simp
qed

section \<open>Acquiring an archive\<close>

lemma validateChecksum_falsy: "\<not> truthy c \<Longrightarrow> validateChecksum e w p c = Inr True"
  by (simp add: validateChecksum_def)

lemma validateChecksum_file:
  "truthy c \<Longrightarrow> files w p = Some b \<Longrightarrow> validateChecksum e w p c = Inr (Some (sha256hex e b) = c)"
  by (simp add: validateChecksum_def computeFileChecksum_def)

lemma files_unlink: "files (unlink p w) p = None"
  by (simp add: unlink_def)

lemma checkCachedArchive_invalid:
  assumes "truthy c"
    and "\<not> (\<exists>b. files w p = Some b \<and> length b > 1024 * 1024 \<and> Some (sha256hex e b) = c)"
  shows "\<exists>w1. checkCachedArchive e w p c = (Inr False, w1)"
proof (cases "files w p")
  case None
  then show ?thesis by (simp add: checkCachedArchive_def)
next
  case (Some b)
  then show ?thesis using assms
    by (cases "length b > 1024 * 1024") (simp_all add: checkCachedArchive_def validateChecksum_file)
qed

lemma checkCachedArchive_valid:
  assumes "truthy c" and "checkCachedArchive e w p c = (Inr True, w1)"
  shows "w1 = w \<and> (\<exists>b. files w p = Some b \<and> Some (sha256hex e b) = c)"
proof (cases "files w p")
  case None
  then show ?thesis using assms by (simp add: checkCachedArchive_def)
next
  case (Some b)
  then show ?thesis using assms
    by (cases "length b > 1024 * 1024")
       (auto simp: checkCachedArchive_def validateChecksum_file split: if_splits)
qed

lemma acquire_after_download:
  assumes "\<not> (osName e = js ''darwin'' \<and> arch e = js ''amd64'')"
    and "checkCachedArchive e w p c = (Inr False, w1)"
    and "(if r then retryDownload e i u else downloadFile e i u) = DownloadWrites content"
  shows "acquireGameArchive e i w u p c r =
          (case validateChecksum e (w1\<lparr>files := (files w1)(p \<mapsto> content)\<rparr>) p c of
             Inl err \<Rightarrow> (Inl err, w1\<lparr>files := (files w1)(p \<mapsto> content)\<rparr>)
           | Inr isValid \<Rightarrow>
               if \<not> isValid then (Inl ArchiveCorrupted, unlink p (w1\<lparr>files := (files w1)(p \<mapsto> content)\<rparr>))
               else (Inr p, w1\<lparr>files := (files w1)(p \<mapsto> content)\<rparr>))"
  using assms by (auto simp: acquireGameArchive_def Let_def)

lemma acquire_mismatch:
  assumes "truthy c" and "\<not> (osName e = js ''darwin'' \<and> arch e = js ''amd64'')"
    and "\<not> (\<exists>b. files w p = Some b \<and> length b > 1024 * 1024 \<and> Some (sha256hex e b) = c)"
    and "(if r then retryDownload e i u else downloadFile e i u) = DownloadWrites content"
    and "Some (sha256hex e content) \<noteq> c"
  shows "fst (acquireGameArchive e i w u p c r) = Inl ArchiveCorrupted
       \<and> files (snd (acquireGameArchive e i w u p c r)) p = None"
proof -
  obtain w1 where w1: "checkCachedArchive e w p c = (Inr False, w1)"
    using assms checkCachedArchive_invalid by blast
  let ?w2 = "w1\<lparr>files := (files w1)(p \<mapsto> content)\<rparr>"
  have v: "validateChecksum e ?w2 p c = Inr False"
    using assms by (simp add: validateChecksum_file)
  have "acquireGameArchive e i w u p c r = (Inl ArchiveCorrupted, unlink p ?w2)"
    using assms w1 v by (simp add: acquire_after_download)
  then show ?thesis by (simp add: files_unlink)
qed

lemma acquire_returns_valid:
  assumes "truthy c" and "acquireGameArchive e i w u p c r = (Inr q, w')"
  shows "q = p \<and> (\<exists>b. files w' p = Some b \<and> Some (sha256hex e b) = c)"
proof -
  have plat: "\<not> (osName e = js ''darwin'' \<and> arch e = js ''amd64'')"
    using assms by (auto simp: acquireGameArchive_def)
  obtain res w1 where cc: "checkCachedArchive e w p c = (res, w1)" by (cases "checkCachedArchive e w p c")
  show ?thesis
  proof (cases res)
    case (Inl err)
    then show ?thesis using assms plat cc by (auto simp: acquireGameArchive_def)
  next
    case (Inr hit)
    show ?thesis
    proof (cases hit)
      case True
      then have "acquireGameArchive e i w u p c r = (Inr p, w1)"
        using plat cc Inr by (auto simp: acquireGameArchive_def)
      moreover have "checkCachedArchive e w p c = (Inr True, w1)"
        using cc Inr True by simp
      then have "w1 = w \<and> (\<exists>b. files w p = Some b \<and> Some (sha256hex e b) = c)"
        using assms checkCachedArchive_valid by blast
      ultimately show ?thesis using assms by auto
    next
      case False
      then have cf: "checkCachedArchive e w p c = (Inr False, w1)" using cc Inr by simp
      show ?thesis
      proof (cases "if r then retryDownload e i u else downloadFile e i u")
        case (DownloadThrows msg leftover)
        then show ?thesis using assms plat cf
          by (auto simp: acquireGameArchive_def split: if_splits)
      next
        case (DownloadWrites content)
        let ?w2 = "w1\<lparr>files := (files w1)(p \<mapsto> content)\<rparr>"
        have v: "validateChecksum e ?w2 p c = Inr (Some (sha256hex e content) = c)"
          using assms by (simp add: validateChecksum_file)
        have "acquireGameArchive e i w u p c r =
                (if Some (sha256hex e content) \<noteq> c then (Inl ArchiveCorrupted, unlink p ?w2)
                 else (Inr p, ?w2))"
          using plat cf DownloadWrites v by (simp add: acquire_after_download)
        then show ?thesis using assms by (auto split: if_splits)
      qed
    qed
  qed
qed

text \<open>
  Claim C6. Let a checksum be supplied (non-empty). If no valid archive is cached, the
  download writes a file and the file's digest differs from the checksum, then
  \<open>acquireGameArchive\<close> raises the error \<open>Downloaded archive is corrupted or invalid\<close>
  and the file is gone from the target path. And whenever \<open>acquireGameArchive\<close> returns
  a path, it is the target path and the file there has the expected digest: an archive
  whose digest differs is never returned.
\<close>

theorem checksum_mismatch_is_rejected:
  "(truthy c \<and> \<not> (osName e = js ''darwin'' \<and> arch e = js ''amd64'')
      \<and> \<not> (\<exists>b. files w p = Some b \<and> length b > 1024 * 1024 \<and> Some (sha256hex e b) = c)
      \<and> (if r then retryDownload e i u else downloadFile e i u) = DownloadWrites content
      \<and> Some (sha256hex e content) \<noteq> c
    \<longrightarrow> fst (acquireGameArchive e i w u p c r) = Inl ArchiveCorrupted
        \<and> files (snd (acquireGameArchive e i w u p c r)) p = None)
   \<and> (truthy c \<and> acquireGameArchive e i w u p c r = (Inr q, w')
    \<longrightarrow> q = p \<and> (\<exists>b. files w' p = Some b \<and> Some (sha256hex e b) = c))"
  using acquire_mismatch [of c e w p r i u content] acquire_returns_valid [of c e i w u p r q w']
  by blast

text \<open>
  With the checksum \<open>good\<close>: the download of \<open>u2\<close> is rejected and removed, that of
  \<open>u1\<close> is returned and has the digest \<open>good\<close>.
\<close>

theorem checksum_mismatch_is_rejected_witness:
  "fst (acquireGameArchive e6 0 w6 (js ''u2'') (js ''/cache/a'') (Some (js ''good'')) True) = Inl ArchiveCorrupted
   \<and> files (snd (acquireGameArchive e6 0 w6 (js ''u2'') (js ''/cache/a'') (Some (js ''good'')) True)) (js ''/cache/a'') = None
   \<and> fst (acquireGameArchive e6 0 w6 (js ''u1'') (js ''/cache/a'') (Some (js ''good'')) True) = Inr (js ''/cache/a'')
   \<and> (\<exists>b. files (snd (acquireGameArchive e6 0 w6 (js ''u1'') (js ''/cache/a'') (Some (js ''good'')) True)) (js ''/cache/a'') = Some b
          \<and> Some (sha256hex e6 b) = Some (js ''good''))"
proof -
  let ?p = "js ''/cache/a''" and ?c = "Some (js ''good'')"
  have t: "truthy ?c" by (simp add: js_def)
  have plat: "\<not> (osName e6 = js ''darwin'' \<and> arch e6 = js ''amd64'')"
    by (simp add: e6_def js_def)
  have nocache: "\<not> (\<exists>b. files w6 ?p = Some b \<and> length b > 1024 * 1024 \<and> Some (sha256hex e6 b) = ?c)"
    by (simp add: w6_def)
  have dl: "(if True then retryDownload e6 0 (js ''u2'') else downloadFile e6 0 (js ''u2'')) = DownloadWrites [9]"
    by (simp add: e6_def js_def)
  have bad: "Some (sha256hex e6 [9]) \<noteq> ?c" by (simp add: e6_def js_def)
  have ok: "acquireGameArchive e6 0 w6 (js ''u1'') ?p ?c True
              = (Inr ?p, snd (acquireGameArchive e6 0 w6 (js ''u1'') ?p ?c True))"
    by (simp add: acquireGameArchive_def checkCachedArchive_def validateChecksum_def
          computeFileChecksum_def e6_def w6_def js_def)
  from checksum_mismatch_is_rejected [of ?c e6 w6 ?p True 0 "js ''u2''" "[9]"] t plat nocache dl bad
  have a: "fst (acquireGameArchive e6 0 w6 (js ''u2'') ?p ?c True) = Inl ArchiveCorrupted
        \<and> files (snd (acquireGameArchive e6 0 w6 (js ''u2'') ?p ?c True)) ?p = None"
    by blast
  from checksum_mismatch_is_rejected [of ?c e6 w6 ?p True 0 "js ''u1''" _ ?p
         "snd (acquireGameArchive e6 0 w6 (js ''u1'') ?p ?c True)"] t ok
  have b: "\<exists>b. files (snd (acquireGameArchive e6 0 w6 (js ''u1'') ?p ?c True)) ?p = Some b
          \<and> Some (sha256hex e6 b) = ?c"
    by blast
  from ok have c: "fst (acquireGameArchive e6 0 w6 (js ''u1'') ?p ?c True) = Inr ?p"
    by (metis fst_conv)
  from a b c show ?thesis by blast
qed

section \<open>The steps of an update\<close>

lemma validateChecksum_error:
  "validateChecksum e w p c = Inl err \<Longrightarrow> err = FileReadFailed p"
  by (auto simp: validateChecksum_def computeFileChecksum_def split: if_splits option.splits)

lemma checkCachedArchive_frame:
  assumes "checkCachedArchive e w p c = (res, w')"
  shows "trace w' = trace w \<and> version_client w' = version_client w
       \<and> (\<forall>err. res = Inl err \<longrightarrow> err = FileReadFailed p)"
  using assms
  by (auto simp: checkCachedArchive_def unlink_def dest: validateChecksum_error
           split: option.splits if_splits sum.splits)

lemma acquire_frame:
  assumes "acquireGameArchive e i w u p c r = (res, w')"
  shows "trace w' = trace w \<and> version_client w' = version_client w
       \<and> (\<forall>m. res \<noteq> Inl (ConfigSaveFailed m))"
proof (cases "osName e = js ''darwin'' \<and> arch e = js ''amd64''")
  case True
  then show ?thesis using assms by (auto simp: acquireGameArchive_def)
next
  case False
  obtain cr w1 where cc: "checkCachedArchive e w p c = (cr, w1)"
    by (cases "checkCachedArchive e w p c")
  note fr = checkCachedArchive_frame [OF cc]
  show ?thesis
  proof (cases cr)
    case (Inl err)
    then show ?thesis using assms False cc fr by (auto simp: acquireGameArchive_def)
  next
    case (Inr hit)
    show ?thesis
    proof (cases hit)
      case True
      then show ?thesis using assms False cc fr Inr by (auto simp: acquireGameArchive_def)
    next
      case hf: False
      show ?thesis
      proof (cases "if r then retryDownload e i u else downloadFile e i u")
        case (DownloadThrows msg leftover)
        then show ?thesis using assms False cc fr Inr hf
          by (auto simp: acquireGameArchive_def split: if_splits)
      next
        case (DownloadWrites content)
        then show ?thesis using assms False cc fr Inr hf
          by (auto simp: acquireGameArchive_def Let_def unlink_def dest: validateChecksum_error
                   split: if_splits sum.splits)
      qed
    qed
  qed
qed

lemma deploy_frame:
  assumes "deployGameArchive e i w p d = (res, w')"
  shows "trace w' = trace w \<and> version_client w' = version_client w
       \<and> (\<forall>m. res \<noteq> Inl (ConfigSaveFailed m))"
  using assms
  by (auto simp: deployGameArchive_def Let_def unlink_def split: if_splits toolOutcome.splits)

lemma emit_simps:
  "trace (emit ev w) = trace w @ [ev]"
  "version_client (emit ev w) = version_client w"
  "files (emit ev w) = files w"
  by (simp_all add: emit_def)

lemma unlink_simps:
  "trace (unlink p w) = trace w"
  "version_client (unlink p w) = version_client w"
  by (simp_all add: unlink_def)

lemma save_cases:
  "saveVersionClient e i w v = (res, w') \<Longrightarrow>
     trace w' = trace w \<and>
     ((res = Inr () \<and> version_client w' = Some v)
      \<or> (isSaveError res \<and> version_client w' = version_client w))"
  by (auto simp: saveVersionClient_def isSaveError_def split: option.splits)

lemma stepEndsI:
  assumes "trace w' = trace w @ evs"
    and "(res = Inr () \<and> evs = [A, D, DeployReturned v, SaveCall v] \<and> version_client w' = Some v)
       \<or> (isSaveError res \<and> evs = [A, D, DeployReturned v, SaveCall v]
           \<and> version_client w' = version_client w)
       \<or> (isl res \<and> \<not> isSaveError res \<and> (evs = [A] \<or> evs = [A, D])
           \<and> version_client w' = version_client w)"
  shows "stepEnds A D v res w w'"
proof -
  have "newEvents w w' = evs" using assms(1) by (simp add: newEvents_def)
  then show ?thesis using assms by (simp add: stepEnds_def Let_def)
qed

lemma not_save_error:
  "\<forall>m. err \<noteq> ConfigSaveFailed m \<Longrightarrow> \<not> isSaveError (Inl err)"
  by (cases err) (simp_all add: isSaveError_def)

lemma stage_shape:
  assumes acq: "acquireGameArchive e i (emit A w) url path cs True = (ra, wa)"
    and dep: "deployGameArchive e i (emit D wa) path d = (rd, wd)"
    and sav: "saveVersionClient e i (emit (SaveCall v) (post (emit (DeployReturned v) wd))) v = (rs, ws)"
    and post: "\<And>x. trace (post x) = trace x" "\<And>x. version_client (post x) = version_client x"
    and res: "(res, w') = (case ra of Inl err \<Rightarrow> (Inl err, wa)
                          | Inr p \<Rightarrow> (case rd of Inl err \<Rightarrow> (Inl err, wd) | Inr u \<Rightarrow> (rs, ws)))"
  shows "stepEnds A D v res w w'"
proof -
  note fa = acquire_frame [OF acq]
  note fd = deploy_frame [OF dep]
  note fs = save_cases [OF sav]
  show ?thesis
  proof (cases ra)
    case (Inl err)
    then have r: "res = Inl err" "w' = wa" using res by simp_all
    have "\<not> isSaveError res" using fa Inl r by (simp add: not_save_error)
    then show ?thesis using r fa
      by (intro stepEndsI [where evs = "[A]"]) (simp_all add: emit_simps)
  next
    case ira: (Inr p)
    show ?thesis
    proof (cases rd)
      case (Inl err)
      then have r: "res = Inl err" "w' = wd" using res ira by simp_all
      have "\<not> isSaveError res" using fd Inl r by (simp add: not_save_error)
      then show ?thesis using r fa fd
        by (intro stepEndsI [where evs = "[A, D]"]) (simp_all add: emit_simps)
    next
      case (Inr u)
      then have r: "res = rs" "w' = ws" using res ira by simp_all
      have tr: "trace ws = trace w @ [A, D, DeployReturned v, SaveCall v]"
        using fs fa fd by (simp add: emit_simps post)
      have vc: "version_client (emit (SaveCall v) (post (emit (DeployReturned v) wd))) = version_client w"
        using fa fd by (simp add: emit_simps post)
      show ?thesis using r fs tr vc
        by (intro stepEndsI [where evs = "[A, D, DeployReturned v, SaveCall v]"]) auto
    qed
  qed
qed

text \<open>What a step acquires and deploys.\<close>

lemma applyPatchStep_shape:
  assumes "applyPatchStep e branch i w v d = (res, w')"
  shows "if canUseDifferentialUpdate (getInstalledClientVersion w) (Some d) \<and> truthy (differentialUrl d)
         then stepEnds
                (AcquireCall v (the (differentialUrl d))
                   (pathJoin (CACHE_DIR e) (branch @ js ''_patch_'' @ basename (the (differentialUrl d))))
                   (checksum d))
                (DeployCall v
                   (pathJoin (CACHE_DIR e) (branch @ js ''_patch_'' @ basename (the (differentialUrl d)))) True)
                v res w w'
         else stepEnds
                (AcquireCall v (fullUrl d)
                   (pathJoin (CACHE_DIR e) (branch @ js ''_'' @ basename (fullUrl d))) None)
                (DeployCall v (pathJoin (CACHE_DIR e) (branch @ js ''_'' @ basename (fullUrl d))) False)
                v res w w'"
proof (cases "canUseDifferentialUpdate (getInstalledClientVersion w) (Some d) \<and> truthy (differentialUrl d)")
  case True
  let ?url = "the (differentialUrl d)"
  let ?path = "pathJoin (CACHE_DIR e) (branch @ js ''_patch_'' @ basename ?url)"
  let ?A = "AcquireCall v ?url ?path (checksum d)"
  let ?D = "DeployCall v ?path True"
  let ?post = "\<lambda>x. if files x ?path \<noteq> None then unlink ?path x else x"
  obtain ra wa where acq: "acquireGameArchive e i (emit ?A w) ?url ?path (checksum d) True = (ra, wa)"
    by (cases "acquireGameArchive e i (emit ?A w) ?url ?path (checksum d) True")
  obtain rd wd where dep: "deployGameArchive e i (emit ?D wa) ?path True = (rd, wd)"
    by (cases "deployGameArchive e i (emit ?D wa) ?path True")
  obtain rs ws where sav: "saveVersionClient e i (emit (SaveCall v) (?post (emit (DeployReturned v) wd))) v = (rs, ws)"
    by (cases "saveVersionClient e i (emit (SaveCall v) (?post (emit (DeployReturned v) wd))) v")
  have eq: "(res, w') = (case ra of Inl err \<Rightarrow> (Inl err, wa)
                          | Inr p \<Rightarrow> (case rd of Inl err \<Rightarrow> (Inl err, wd) | Inr u \<Rightarrow> (rs, ws)))"
    using assms True acq dep sav
    by (auto simp: applyPatchStep_def Let_def simp del: canUseDifferentialUpdate.simps split: sum.splits)
  have "stepEnds ?A ?D v res w w'"
    by (rule stage_shape [where post = ?post, OF acq dep sav _ _ eq]) (simp_all add: unlink_simps)
  then show ?thesis using True by (auto simp del: canUseDifferentialUpdate.simps)
next
  case False
  let ?url = "fullUrl d"
  let ?path = "pathJoin (CACHE_DIR e) (branch @ js ''_'' @ basename ?url)"
  let ?A = "AcquireCall v ?url ?path None"
  let ?D = "DeployCall v ?path False"
  let ?post = "\<lambda>x :: world. x"
  obtain ra wa where acq: "acquireGameArchive e i (emit ?A w) ?url ?path None True = (ra, wa)"
    by (cases "acquireGameArchive e i (emit ?A w) ?url ?path None True")
  obtain rd wd where dep: "deployGameArchive e i (emit ?D wa) ?path False = (rd, wd)"
    by (cases "deployGameArchive e i (emit ?D wa) ?path False")
  obtain rs ws where sav: "saveVersionClient e i (emit (SaveCall v) (?post (emit (DeployReturned v) wd))) v = (rs, ws)"
    by (cases "saveVersionClient e i (emit (SaveCall v) (emit (DeployReturned v) wd)) v") simp
  have eq: "(res, w') = (case ra of Inl err \<Rightarrow> (Inl err, wa)
                          | Inr p \<Rightarrow> (case rd of Inl err \<Rightarrow> (Inl err, wd) | Inr u \<Rightarrow> (rs, ws)))"
    using assms False acq dep sav
    by (auto simp: applyPatchStep_def Let_def simp del: canUseDifferentialUpdate.simps split: sum.splits)
  have "stepEnds ?A ?D v res w w'"
    by (rule stage_shape [where post = ?post, OF acq dep sav _ _ eq]) simp_all
  then show ?thesis using False by (auto simp del: canUseDifferentialUpdate.simps)
qed



lemma newEvents_append: "trace w' = trace w @ evs \<Longrightarrow> newEvents w w' = evs"
  by (simp add: newEvents_def)

lemma extractVersionDetails_no_differential:
  "differentialUrl (extractVersionDetails e v branch) = None"
  by (simp add: extractVersionDetails_def Let_def)

lemma source_step_ends:
  assumes "applyPatchStep e branch i w v (extractVersionDetails e v branch) = (res, w')"
  shows "stepEnds (fullStepEvents e branch v ! 0) (fullStepEvents e branch v ! 1) v res w w'"
  using applyPatchStep_shape [OF assms]
  by (simp add: extractVersionDetails_no_differential fullStepEvents_def Let_def
           del: canUseDifferentialUpdate.simps)

lemma source_step_cases:
  assumes "applyPatchStep e branch i w v (extractVersionDetails e v branch) = (res, w')"
  shows "\<exists>evs. trace w' = trace w @ evs \<and>
           ((res = Inr () \<and> evs = fullStepEvents e branch v \<and> version_client w' = Some v)
            \<or> (isSaveError res \<and> evs = fullStepEvents e branch v \<and> version_client w' = version_client w)
            \<or> (isl res \<and> \<not> isSaveError res
                \<and> (evs = take 1 (fullStepEvents e branch v) \<or> evs = take 2 (fullStepEvents e branch v))
                \<and> version_client w' = version_client w))"
  using source_step_ends [OF assms]
  by (auto simp: stepEnds_def fullStepEvents_def Let_def)

lemma fullInstall_as_loop: "fullInstall e w targetVersion branch = patchLoop e branch 0 w [targetVersion]"
proof -
  have "fullInstall e w targetVersion branch
          = applyPatchStep e branch 0 w targetVersion (extractVersionDetails e targetVersion branch)"
    by (simp add: fullInstall_def applyPatchStep_def Let_def extractVersionDetails_no_differential
             del: canUseDifferentialUpdate.simps)
  then show ?thesis by (auto split: prod.splits sum.splits)
qed

text \<open>The plan that \<open>performIntelligentUpdate\<close> works through.\<close>

lemma performIntelligentUpdate_as_loop:
  "performIntelligentUpdate e w targetVersion branch
     = patchLoop e branch 0 w
         (if branch \<noteq> js ''release'' \<or> \<not> truthy (getInstalledClientVersion w) then [targetVersion]
          else needsIntermediatePatches (getInstalledClientVersion w) targetVersion)"
  by (simp add: performIntelligentUpdate_def Let_def fullInstall_as_loop)

lemma fullStepEvents_facts:
  "savesFollowDeploys pending (fullStepEvents e branch v @ es) = savesFollowDeploys None es"
  "savesFollowDeploys pending (take 1 (fullStepEvents e branch v))"
  "savesFollowDeploys pending (take 2 (fullStepEvents e branch v))"
  "deployedVersions (fullStepEvents e branch v @ es) = v # deployedVersions es"
  "deployedVersions (take 1 (fullStepEvents e branch v)) = []"
  "deployedVersions (take 2 (fullStepEvents e branch v)) = []"
  by (simp_all add: fullStepEvents_def Let_def)

lemma fullStepEvents_acquires:
  "AcquireCall v' u p c \<in> set (fullStepEvents e branch v) \<Longrightarrow> c = None"
  by (auto simp: fullStepEvents_def Let_def)

lemma patchLoop_runs:
  assumes "patchLoop e branch i w plan = (res, w')"
  shows "\<exists>evs. trace w' = trace w @ evs
           \<and> savesFollowDeploys None evs
           \<and> take (length (deployedVersions evs)) plan = deployedVersions evs
           \<and> (\<forall>v u p c. AcquireCall v u p c \<in> set evs \<longrightarrow> c = None)
           \<and> (res = Inr () \<longrightarrow> evs = concat (map (fullStepEvents e branch) plan))
           \<and> (\<not> isSaveError res \<longrightarrow>
                version_client w' = (if deployedVersions evs = [] then version_client w
                                     else Some (last (deployedVersions evs))))"
  using assms
proof (induction plan arbitrary: i w)
  case Nil
  then show ?case by (simp add: isSaveError_def)
next
  case (Cons v rest)
  obtain r1 w1 where st: "applyPatchStep e branch i w v (extractVersionDetails e v branch) = (r1, w1)"
    by (cases "applyPatchStep e branch i w v (extractVersionDetails e v branch)")
  from source_step_cases [OF st] obtain evs1 where
    tr1: "trace w1 = trace w @ evs1" and
    c1: "(r1 = Inr () \<and> evs1 = fullStepEvents e branch v \<and> version_client w1 = Some v)
          \<or> (isSaveError r1 \<and> evs1 = fullStepEvents e branch v \<and> version_client w1 = version_client w)
          \<or> (isl r1 \<and> \<not> isSaveError r1
              \<and> (evs1 = take 1 (fullStepEvents e branch v) \<or> evs1 = take 2 (fullStepEvents e branch v))
              \<and> version_client w1 = version_client w)"
    by blast
  show ?case
  proof (cases r1)
    case (Inl err)
    then have r: "res = r1" "w' = w1" using Cons.prems st by simp_all
    have acq: "\<forall>v' u p c. AcquireCall v' u p c \<in> set evs1 \<longrightarrow> c = None"
      using c1 fullStepEvents_acquires by (metis in_set_takeD)
    have sfd: "savesFollowDeploys None evs1"
      using c1 fullStepEvents_facts(1) [of None e branch v "[]"] fullStepEvents_facts(2,3)
      by auto
    have dv: "isSaveError r1 \<and> deployedVersions evs1 = [v] \<or> \<not> isSaveError r1 \<and> deployedVersions evs1 = []"
      using c1 Inl fullStepEvents_facts(4) [of e branch v "[]"] fullStepEvents_facts(5,6)
      by auto
    have "trace w' = trace w @ evs1" using r tr1 by simp
    moreover have "take (length (deployedVersions evs1)) (v # rest) = deployedVersions evs1"
      using dv by auto
    moreover have "res \<noteq> Inr ()" using r Inl by simp
    moreover have "\<not> isSaveError res \<longrightarrow> version_client w' =
        (if deployedVersions evs1 = [] then version_client w else Some (last (deployedVersions evs1)))"
      using r dv c1 Inl by auto
    ultimately show ?thesis using sfd acq by blast
  next
    case (Inr u)
    then have ok: "r1 = Inr ()" by simp
    then have e1: "evs1 = fullStepEvents e branch v" and v1: "version_client w1 = Some v"
      using c1 by (auto simp: isSaveError_def)
    have lp: "patchLoop e branch (i + 1) w1 rest = (res, w')"
      using Cons.prems st ok by simp
    from Cons.IH [OF lp] obtain evs2 where
      tr2: "trace w' = trace w1 @ evs2" and
      s2: "savesFollowDeploys None evs2" and
      p2: "take (length (deployedVersions evs2)) rest = deployedVersions evs2" and
      a2: "\<forall>v u p c. AcquireCall v u p c \<in> set evs2 \<longrightarrow> c = None" and
      f2: "res = Inr () \<longrightarrow> evs2 = concat (map (fullStepEvents e branch) rest)" and
      v2: "\<not> isSaveError res \<longrightarrow> version_client w' =
             (if deployedVersions evs2 = [] then version_client w1 else Some (last (deployedVersions evs2)))"
      by blast
    let ?evs = "evs1 @ evs2"
    have "trace w' = trace w @ ?evs" using tr1 tr2 by simp
    moreover have "savesFollowDeploys None ?evs" using e1 s2 by (simp add: fullStepEvents_facts)
    moreover have dv: "deployedVersions ?evs = v # deployedVersions evs2"
      using e1 by (simp add: fullStepEvents_facts)
    moreover have "take (length (deployedVersions ?evs)) (v # rest) = deployedVersions ?evs"
      using dv p2 by simp
    moreover have "\<forall>v u p c. AcquireCall v u p c \<in> set ?evs \<longrightarrow> c = None"
      using e1 a2 fullStepEvents_acquires by auto
    moreover have "res = Inr () \<longrightarrow> ?evs = concat (map (fullStepEvents e branch) (v # rest))"
      using e1 f2 by simp
    moreover have "\<not> isSaveError res \<longrightarrow> version_client w' =
        (if deployedVersions ?evs = [] then version_client w else Some (last (deployedVersions ?evs)))"
      using v2 v1 dv by auto
    ultimately show ?thesis by blast
  qed
qed














section \<open>The installed-version record\<close>

text \<open>
  Claim C1. In every run of \<open>performIntelligentUpdate\<close>, \<open>saveVersionClient\<close> is called
  for a version only directly after the deployment of that same version has returned;
  and in every run that does not stop because the save itself fails (so in every run
  stopped by an acquisition or a deployment that throws, and in every run that
  completes) the installed-version record ends as the version of the last step whose
  deployment returned, or as it was at the start when no deployment returned.
\<close>

theorem record_written_only_after_deploy:
  assumes "performIntelligentUpdate e w targetVersion branch = (res, w')"
  shows "trace w' = trace w @ newEvents w w'
       \<and> savesFollowDeploys None (newEvents w w')
       \<and> (\<not> isSaveError res \<longrightarrow>
            version_client w' = (if deployedVersions (newEvents w w') = [] then version_client w
                                 else Some (last (deployedVersions (newEvents w w')))))"
proof -
  from assms obtain plan where "patchLoop e branch 0 w plan = (res, w')"
    by (simp add: performIntelligentUpdate_as_loop)
  from patchLoop_runs [OF this] obtain evs where
    tr: "trace w' = trace w @ evs" and
    s: "savesFollowDeploys None evs" and
    v: "\<not> isSaveError res \<longrightarrow> version_client w' =
          (if deployedVersions evs = [] then version_client w else Some (last (deployedVersions evs)))"
    by blast
  have "newEvents w w' = evs" using tr by (rule newEvents_append)
  then show ?thesis using tr s v by simp
qed

text \<open>
  An update from \<open>5.pwr\<close> to \<open>8.pwr\<close> whose third deployment fails: versions 6 and 7 are
  deployed and the record holds \<open>7.pwr\<close>.
\<close>

lemma run1_fst: "fst (performIntelligentUpdate e1 w6 (js ''8.pwr'') (js ''release''))
   = Inl (DeploymentFailed (js ''Insufficient disk space. Free up space and try again.''))"
  by code_simp

lemma run1_deployed: "deployedVersions (newEvents w6 (snd (performIntelligentUpdate e1 w6 (js ''8.pwr'') (js ''release''))))
   = [js ''6.pwr'', js ''7.pwr'']"
  by code_simp

theorem record_written_only_after_deploy_witness:
  "fst (performIntelligentUpdate e1 w6 (js ''8.pwr'') (js ''release''))
     = Inl (DeploymentFailed (js ''Insufficient disk space. Free up space and try again.''))
   \<and> deployedVersions (newEvents w6 (snd (performIntelligentUpdate e1 w6 (js ''8.pwr'') (js ''release''))))
     = [js ''6.pwr'', js ''7.pwr'']
   \<and> savesFollowDeploys None (newEvents w6 (snd (performIntelligentUpdate e1 w6 (js ''8.pwr'') (js ''release''))))
   \<and> version_client (snd (performIntelligentUpdate e1 w6 (js ''8.pwr'') (js ''release''))) = Some (js ''7.pwr'')"
proof -
  let ?run = "performIntelligentUpdate e1 w6 (js ''8.pwr'') (js ''release'')"
  have h: "?run = (fst ?run, snd ?run)" by simp
  have ns: "\<not> isSaveError (fst ?run)" by (simp add: run1_fst isSaveError_def)
  from record_written_only_after_deploy [OF h] ns run1_fst run1_deployed
  show ?thesis by simp
qed

section \<open>Full archives are accepted unchecked\<close>

text \<open>
  Claim C10. \<open>validateChecksum\<close> returns true for a \<open>null\<close> or empty expected checksum,
  whatever the file and the digest function are (even when the file is missing, so no
  digest is computed). Every call of \<open>acquireGameArchive\<close> that \<open>performIntelligentUpdate\<close>
  makes passes no checksum; and without a checksum \<open>acquireGameArchive\<close> returns
  whatever the download wrote, or a cached file above the size threshold, as a valid
  archive.
\<close>

theorem full_archives_are_not_checked:
  "validateChecksum e w filePath None = Inr True
   \<and> validateChecksum e w filePath (Some []) = Inr True
   \<and> (performIntelligentUpdate e w targetVersion branch = (res, w') \<longrightarrow>
        (\<forall>v u p c. AcquireCall v u p c \<in> set (newEvents w w') \<longrightarrow> c = None))
   \<and> (\<not> truthy c \<and> \<not> (osName e = js ''darwin'' \<and> arch e = js ''amd64'')
        \<and> (\<forall>b. files w p = Some b \<longrightarrow> length b \<le> 1024 * 1024)
        \<and> (if r then retryDownload e i u else downloadFile e i u) = DownloadWrites content
      \<longrightarrow> acquireGameArchive e i w u p c r = (Inr p, w\<lparr>files := (files w)(p \<mapsto> content)\<rparr>))
   \<and> (\<not> truthy c \<and> \<not> (osName e = js ''darwin'' \<and> arch e = js ''amd64'')
        \<and> files w p = Some cached \<and> length cached > 1024 * 1024
      \<longrightarrow> acquireGameArchive e i w u p c r = (Inr p, w))"
proof -
  have a: "validateChecksum e w filePath None = Inr True"
    and b: "validateChecksum e w filePath (Some []) = Inr True"
    by (simp_all add: validateChecksum_falsy)
  have c: "performIntelligentUpdate e w targetVersion branch = (res, w') \<longrightarrow>
        (\<forall>v u p c. AcquireCall v u p c \<in> set (newEvents w w') \<longrightarrow> c = None)"
  proof
    assume "performIntelligentUpdate e w targetVersion branch = (res, w')"
    then obtain plan where "patchLoop e branch 0 w plan = (res, w')"
      by (simp add: performIntelligentUpdate_as_loop)
    from patchLoop_runs [OF this] obtain evs where
      tr: "trace w' = trace w @ evs" and
      n: "\<forall>v u p c. AcquireCall v u p c \<in> set evs \<longrightarrow> c = None"
      by blast
    have "newEvents w w' = evs" using tr by (rule newEvents_append)
    then show "\<forall>v u p c. AcquireCall v u p c \<in> set (newEvents w w') \<longrightarrow> c = None"
      using n by simp
  qed
  have d: "\<not> truthy c \<and> \<not> (osName e = js ''darwin'' \<and> arch e = js ''amd64'')
        \<and> (\<forall>b. files w p = Some b \<longrightarrow> length b \<le> 1024 * 1024)
        \<and> (if r then retryDownload e i u else downloadFile e i u) = DownloadWrites content
      \<longrightarrow> acquireGameArchive e i w u p c r = (Inr p, w\<lparr>files := (files w)(p \<mapsto> content)\<rparr>)"
  proof
    assume h: "\<not> truthy c \<and> \<not> (osName e = js ''darwin'' \<and> arch e = js ''amd64'')
        \<and> (\<forall>b. files w p = Some b \<longrightarrow> length b \<le> 1024 * 1024)
        \<and> (if r then retryDownload e i u else downloadFile e i u) = DownloadWrites content"
    then have cc: "checkCachedArchive e w p c = (Inr False, w)"
      by (auto simp: checkCachedArchive_def split: option.splits)
    show "acquireGameArchive e i w u p c r = (Inr p, w\<lparr>files := (files w)(p \<mapsto> content)\<rparr>)"
      using h cc by (simp add: acquire_after_download validateChecksum_falsy)
  qed
  have f: "\<not> truthy c \<and> \<not> (osName e = js ''darwin'' \<and> arch e = js ''amd64'')
        \<and> files w p = Some cached \<and> length cached > 1024 * 1024
      \<longrightarrow> acquireGameArchive e i w u p c r = (Inr p, w)"
    by (auto simp: acquireGameArchive_def checkCachedArchive_def validateChecksum_falsy)
  show ?thesis using a b c d f by blast
qed

text \<open>
  An update from \<open>5.pwr\<close> to \<open>7.pwr\<close> starts by acquiring build 6 without a checksum,
  and the download of \<open>u2\<close>, rejected under a checksum, is accepted without one.
\<close>

lemma run6_first: "hd (newEvents w6 (snd (performIntelligentUpdate e6 w6 (js ''7.pwr'') (js ''release''))))
   = AcquireCall (js ''6.pwr'') (js ''https://game.authbp.xyz/dl/linux/amd64/release/0/6.pwr'')
       (js ''/cache/release_6.pwr'') None"
  by code_simp

lemma run6_ok: "fst (performIntelligentUpdate e6 w6 (js ''7.pwr'') (js ''release'')) = Inr ()"
  by code_simp

theorem full_archives_are_not_checked_witness:
  "fst (performIntelligentUpdate e6 w6 (js ''7.pwr'') (js ''release'')) = Inr ()
   \<and> hd (newEvents w6 (snd (performIntelligentUpdate e6 w6 (js ''7.pwr'') (js ''release''))))
       = AcquireCall (js ''6.pwr'') (js ''https://game.authbp.xyz/dl/linux/amd64/release/0/6.pwr'')
           (js ''/cache/release_6.pwr'') None
   \<and> acquireGameArchive e6 0 w6 (js ''u2'') (js ''/cache/a'') None True
       = (Inr (js ''/cache/a''), w6\<lparr>files := (files w6)(js ''/cache/a'' \<mapsto> [9])\<rparr>)"
proof -
  let ?p = "js ''/cache/a''"
  have nt: "\<not> truthy None" by simp
  have plat: "\<not> (osName e6 = js ''darwin'' \<and> arch e6 = js ''amd64'')"
    by (simp add: e6_def js_def)
  have nocache: "\<forall>b. files w6 ?p = Some b \<longrightarrow> length b \<le> 1024 * 1024"
    by (simp add: w6_def)
  have dl: "(if True then retryDownload e6 0 (js ''u2'') else downloadFile e6 0 (js ''u2'')) = DownloadWrites [9]"
    by (simp add: e6_def js_def)
  note t = full_archives_are_not_checked [of e6 w6 ?p "js ''7.pwr''" "js ''release''"
      "fst (performIntelligentUpdate e6 w6 (js ''7.pwr'') (js ''release''))"
      "snd (performIntelligentUpdate e6 w6 (js ''7.pwr'') (js ''release''))"
      None ?p True 0 "js ''u2''" "[9]"]
  from t nt plat nocache dl have b: "acquireGameArchive e6 0 w6 (js ''u2'') ?p None True
       = (Inr ?p, w6\<lparr>files := (files w6)(?p \<mapsto> [9])\<rparr>)"
    by blast
  from b run6_ok run6_first show ?thesis by blast
qed

section \<open>Fallbacks to built-in defaults\<close>







section \<open>Version strings and build numbers\<close>

lemma unat_digitChar: "d < 10 \<Longrightarrow> unat (digitChar d) = 48 + d"
  unfolding digitChar_def by (simp only: unat_of_nat) simp

lemma isDigit_digitChar: "d < 10 \<Longrightarrow> isDigit (digitChar d)"
  by (simp add: isDigit_def unat_digitChar)

lemma digitVal_digitChar: "d < 10 \<Longrightarrow> digitVal (digitChar d) = int d"
  by (simp add: digitVal_def unat_digitChar)

lemma decimal_digits: "decimal n \<noteq> [] \<and> (\<forall>c \<in> set (decimal n). isDigit c)"
proof (induction n rule: decimal.induct)
  case (1 n)
  show ?case
  proof (cases "n < 10")
    case True
    then have "decimal n = [digitChar n]" by (subst decimal.simps) simp
    then show ?thesis using True by (simp add: isDigit_digitChar)
  next
    case False
    then have "decimal n = decimal (n div 10) @ [digitChar (n mod 10)]"
      by (subst decimal.simps) simp
    then show ?thesis using 1 False by (simp add: isDigit_digitChar)
  qed
qed

lemma parseDigits_snoc: "parseDigits (ds @ [c]) = 10 * parseDigits ds + digitVal c"
  by (simp add: parseDigits_def)

lemma parseDigits_decimal: "parseDigits (decimal n) = int n"
proof (induction n rule: decimal.induct)
  case (1 n)
  show ?case
  proof (cases "n < 10")
    case True
    then have "decimal n = [digitChar n]" by (subst decimal.simps) simp
    then show ?thesis using True by (simp add: parseDigits_def digitVal_digitChar)
  next
    case False
    then have d: "decimal n = decimal (n div 10) @ [digitChar (n mod 10)]"
      by (subst decimal.simps) simp
    have "parseDigits (decimal n) = 10 * parseDigits (decimal (n div 10)) + digitVal (digitChar (n mod 10))"
      by (simp only: d parseDigits_snoc)
    also have "\<dots> = 10 * int (n div 10) + int (n mod 10)"
      using 1 False by (simp add: digitVal_digitChar)
    also have "\<dots> = int n" by presburger
    finally show ?thesis .
  qed
qed

lemma digit_not_special:
  "isDigit c \<Longrightarrow> c \<noteq> of_char CHR ''v'' \<and> c \<noteq> of_char CHR ''/'' \<and> c \<noteq> of_char CHR ''.''"
  by (auto simp: isDigit_def)

lemma vMatch_none: "\<forall>c \<in> set s. c \<noteq> of_char CHR ''v'' \<Longrightarrow> vMatch s = None"
  by (induction s) simp_all

lemma pwrMatch_digits:
  assumes "ds \<noteq> []" and "\<forall>c \<in> set ds. isDigit c"
  shows "pwrMatch (ds @ js ''.pwr'') = Some ds"
proof -
  obtain c cs where ds: "ds = c # cs" using assms(1) by (cases ds) auto
  have nd: "\<not> isDigit (of_char CHR ''.'')" by (simp add: isDigit_def)
  have nd': "\<not> isDigit 46" by (simp add: isDigit_def)
  have pw: "js ''.pwr'' = [46, 112, 119, 114]" by (simp add: js_def)
  have a: "dropWhile isDigit (cs @ js ''.pwr'') = js ''.pwr''"
    using assms(2) ds nd' by (simp add: pw)
  have b: "takeWhile isDigit (cs @ js ''.pwr'') = cs"
    using assms(2) ds nd' by (simp add: pw)
  have c: "isDigit c" using assms(2) ds by simp
  have t: "take 4 (js ''.pwr'') = js ''.pwr''" by (simp add: pw)
  have "pwrMatch (c # (cs @ js ''.pwr'')) = Some (c # cs)"
    by (simp only: pwrMatch.simps a b c t) simp
  then show ?thesis by (simp add: ds)
qed

lemma extractVersionNumber_pwr:
  assumes "0 \<le> n"
  shows "extractVersionNumber (Some (numberToString n @ js ''.pwr'')) = n"
proof -
  let ?ds = "decimal (nat n)"
  have s: "numberToString n = ?ds" using assms by (simp add: numberToString_def)
  have nov: "\<forall>c \<in> set (?ds @ js ''.pwr''). c \<noteq> of_char CHR ''v''"
    using decimal_digits [of "nat n"] digit_not_special by (auto simp: js_def)
  have v: "vMatch (?ds @ js ''.pwr'') = None" using nov by (rule vMatch_none)
  have p: "pwrMatch (?ds @ js ''.pwr'') = Some ?ds"
    using decimal_digits [of "nat n"] by (intro pwrMatch_digits) simp_all
  have ne: "?ds @ js ''.pwr'' \<noteq> []" using decimal_digits [of "nat n"] by simp
  have "extractVersionNumber (Some (?ds @ js ''.pwr'')) = parseDigits ?ds"
    using ne by (simp only: extractVersionNumber.simps v p) simp
  then show ?thesis using assms by (simp add: s parseDigits_decimal)
qed

lemma intermediatesLoop_closed:
  "intermediatesLoop i target acc = acc @ map (\<lambda>n. numberToString n @ js ''.pwr'') [i..target]"
proof (induction i target acc rule: intermediatesLoop.induct)
  case (1 i target acc)
  show ?case
  proof (cases "i \<le> target")
    case True
    then have "intermediatesLoop i target acc
                 = intermediatesLoop (i + 1) target (acc @ [numberToString i @ js ''.pwr''])"
      by (subst intermediatesLoop.simps) simp
    then show ?thesis using 1 True by (simp add: upto_rec1 [of i target])
  next
    case False
    then show ?thesis by (subst intermediatesLoop.simps) simp
  qed
qed

lemma basename_last_component:
  assumes "name \<noteq> []" and "\<forall>c \<in> set name. c \<noteq> of_char CHR ''/''"
  shows "basename (xs @ of_char CHR ''/'' # name) = name"
proof -
  let ?sl = "of_char CHR ''/'' :: 16 word"
  have r: "rev (xs @ ?sl # name) = rev name @ ?sl # rev xs" by simp
  have h: "hd (rev name @ ?sl # rev xs) \<noteq> ?sl"
    using assms by (cases name rule: rev_cases) auto
  have d: "dropWhile (\<lambda>c. c = ?sl) (rev name @ ?sl # rev xs) = rev name @ ?sl # rev xs"
    using h by (simp add: dropWhile_eq_self_iff)
  have t: "takeWhile (\<lambda>c. c \<noteq> ?sl) (rev name @ ?sl # rev xs) = rev name"
    using assms(2) by (simp add: takeWhile_tail)
  show ?thesis unfolding basename_def r d t by simp
qed

lemma numberToString_no_slash:
  "0 \<le> n \<Longrightarrow> \<forall>c \<in> set (numberToString n @ js ''.pwr''). c \<noteq> of_char CHR ''/''"
  using decimal_digits [of "nat n"] digit_not_special
  by (auto simp: numberToString_def js_def)

lemma basename_buildArchiveUrl:
  assumes "0 \<le> n"
  shows "basename (buildArchiveUrl e n branch) = numberToString n @ js ''.pwr''"
proof -
  let ?pre = "BASE_PATCH_URL @ js ''/'' @ osName e @ js ''/'' @ arch e @ js ''/'' @ branch @ js ''/0''"
  let ?name = "numberToString n @ js ''.pwr''"
  have u: "buildArchiveUrl e n branch = ?pre @ of_char CHR ''/'' # ?name"
    by (simp add: buildArchiveUrl_def js_def)
  have ne: "?name \<noteq> []" by (simp add: js_def)
  have "basename (?pre @ of_char CHR ''/'' # ?name) = ?name"
    using ne numberToString_no_slash [OF assms] by (rule basename_last_component)
  then show ?thesis by (simp only: u)
qed

section \<open>The update plan\<close>

lemma deployedVersions_full_steps:
  "deployedVersions (concat (map (fullStepEvents e branch) plan)) = plan"
  by (induction plan) (simp_all add: fullStepEvents_facts)

lemma fullStepEvents_release:
  assumes "0 \<le> n"
  shows "fullStepEvents e (js ''release'') (numberToString n @ js ''.pwr'')
           = (let v = numberToString n @ js ''.pwr'';
                  archivePath = pathJoin (CACHE_DIR e) (js ''release_'' @ v)
              in [AcquireCall v (buildArchiveUrl e n (js ''release'')) archivePath None,
                  DeployCall v archivePath False, DeployReturned v, SaveCall v])"
proof -
  have r: "js ''release'' @ js ''_'' @ x = js ''release_'' @ x" for x by (simp add: js_def)
  show ?thesis using assms
    by (simp add: fullStepEvents_def extractVersionDetails_def Let_def extractVersionNumber_pwr
          basename_buildArchiveUrl r del: extractVersionNumber.simps)
qed

text \<open>
  Claim C2, as the code has it. Let the current version be neither \<open>null\<close> nor empty,
  and let the extracted build numbers satisfy \<open>0 \<le> current < target\<close> (and stay below
  \<open>2^53\<close>, the range in which JavaScript's numbers count exactly). Then
  \<open>needsIntermediatePatches\<close> returns the versions \<open>current+1, \<dots>, target\<close> as
  \<open>N.pwr\<close> strings, of length \<open>target - current\<close>, strictly ascending by build number.
  On the release branch a run of \<open>performIntelligentUpdate\<close> deploys a prefix of this
  list in this order, and a run that completes deploys exactly this list: for each
  \<open>N\<close> it acquires the full archive of build \<open>N\<close>, deploys it and saves \<open>N.pwr\<close>.
\<close>

theorem plan_is_every_version_up_to_target:
  assumes "truthy current"
    and "cur = extractVersionNumber current" and "tgt = extractVersionNumber (Some target)"
    and "0 \<le> cur" and "cur < tgt" and "tgt < 2 ^ 53"
  shows "needsIntermediatePatches current target
           = map (\<lambda>n. numberToString n @ js ''.pwr'') [cur + 1..tgt]
       \<and> length (needsIntermediatePatches current target) = nat (tgt - cur)
       \<and> map (\<lambda>v. extractVersionNumber (Some v)) (needsIntermediatePatches current target) = [cur + 1..tgt]
       \<and> sorted_wrt (<) (map (\<lambda>v. extractVersionNumber (Some v)) (needsIntermediatePatches current target))
       \<and> (getInstalledClientVersion w = current
            \<and> performIntelligentUpdate e w target (js ''release'') = (res, w')
          \<longrightarrow> take (length (deployedVersions (newEvents w w'))) (needsIntermediatePatches current target)
                 = deployedVersions (newEvents w w')
              \<and> (res = Inr () \<longrightarrow>
                    deployedVersions (newEvents w w') = needsIntermediatePatches current target
                    \<and> newEvents w w'
                        = concat (map (\<lambda>n. let v = numberToString n @ js ''.pwr'';
                                                archivePath = pathJoin (CACHE_DIR e) (js ''release_'' @ v)
                                            in [AcquireCall v (buildArchiveUrl e n (js ''release'')) archivePath None,
                                                DeployCall v archivePath False, DeployReturned v, SaveCall v])
                                    [cur + 1..tgt])))"
proof -
  let ?plan = "needsIntermediatePatches current target"
  let ?name = "\<lambda>n. numberToString n @ js ''.pwr''"
  have plan: "?plan = map ?name [cur + 1..tgt]"
    using assms(1,2,3)
    by (simp add: needsIntermediatePatches_def Let_def intermediatesLoop_closed
             del: extractVersionNumber.simps)
  have len: "length ?plan = nat (tgt - cur)" by (simp add: plan)
  have "map (\<lambda>v. extractVersionNumber (Some v)) ?plan
          = map (\<lambda>n. extractVersionNumber (Some (?name n))) [cur + 1..tgt]"
    by (simp add: plan comp_def del: extractVersionNumber.simps)
  also have "\<dots> = map (\<lambda>n. n) [cur + 1..tgt]"
    using assms(4) by (intro map_cong refl extractVersionNumber_pwr) simp
  finally have nums: "map (\<lambda>v. extractVersionNumber (Some v)) ?plan = [cur + 1..tgt]" by simp
  have asc: "sorted_wrt (<) (map (\<lambda>v. extractVersionNumber (Some v)) ?plan)"
    by (simp only: nums sorted_wrt_upto)
  have run: "take (length (deployedVersions (newEvents w w'))) ?plan = deployedVersions (newEvents w w')
       \<and> (res = Inr () \<longrightarrow>
             deployedVersions (newEvents w w') = ?plan
             \<and> newEvents w w'
                 = concat (map (\<lambda>n. let v = numberToString n @ js ''.pwr'';
                                         archivePath = pathJoin (CACHE_DIR e) (js ''release_'' @ v)
                                     in [AcquireCall v (buildArchiveUrl e n (js ''release'')) archivePath None,
                                         DeployCall v archivePath False, DeployReturned v, SaveCall v])
                             [cur + 1..tgt]))"
    if h: "getInstalledClientVersion w = current
            \<and> performIntelligentUpdate e w target (js ''release'') = (res, w')"
  proof -
    have lp: "patchLoop e (js ''release'') 0 w ?plan = (res, w')"
      using h assms(1) by (auto simp: performIntelligentUpdate_as_loop)
    from patchLoop_runs [OF lp] obtain evs where
      tr: "trace w' = trace w @ evs" and
      pre: "take (length (deployedVersions evs)) ?plan = deployedVersions evs" and
      full: "res = Inr () \<longrightarrow> evs = concat (map (fullStepEvents e (js ''release'')) ?plan)"
      by blast
    have ne: "newEvents w w' = evs" using tr by (rule newEvents_append)
    have steps: "map (fullStepEvents e (js ''release'')) ?plan
          = map (\<lambda>n. let v = numberToString n @ js ''.pwr'';
                         archivePath = pathJoin (CACHE_DIR e) (js ''release_'' @ v)
                     in [AcquireCall v (buildArchiveUrl e n (js ''release'')) archivePath None,
                         DeployCall v archivePath False, DeployReturned v, SaveCall v])
                [cur + 1..tgt]"
      unfolding plan map_map comp_def
      using assms(4) by (intro map_cong refl fullStepEvents_release) simp
    show ?thesis
      using pre full deployedVersions_full_steps [of e "js ''release''" ?plan] steps
      by (auto simp: ne)
  qed
  show ?thesis using plan len nums asc run by blast
qed

text \<open>From \<open>5.pwr\<close> to \<open>8.pwr\<close>: the plan is 6, 7, 8 and a run that completes deploys 6, 7, 8.\<close>

lemma run6_plan: "needsIntermediatePatches (Some (js ''5.pwr'')) (js ''8.pwr'')
   = [js ''6.pwr'', js ''7.pwr'', js ''8.pwr'']"
  by code_simp

lemma run6_numbers: "extractVersionNumber (Some (js ''5.pwr'')) = 5 \<and> extractVersionNumber (Some (js ''8.pwr'')) = 8"
  by code_simp

lemma run6_result: "fst (performIntelligentUpdate e6 w6 (js ''8.pwr'') (js ''release'')) = Inr ()"
  by code_simp

theorem plan_is_every_version_up_to_target_witness:
  "truthy (Some (js ''5.pwr''))
   \<and> extractVersionNumber (Some (js ''5.pwr'')) = 5 \<and> extractVersionNumber (Some (js ''8.pwr'')) = 8
   \<and> needsIntermediatePatches (Some (js ''5.pwr'')) (js ''8.pwr'') = [js ''6.pwr'', js ''7.pwr'', js ''8.pwr'']
   \<and> fst (performIntelligentUpdate e6 w6 (js ''8.pwr'') (js ''release'')) = Inr ()
   \<and> deployedVersions (newEvents w6 (snd (performIntelligentUpdate e6 w6 (js ''8.pwr'') (js ''release''))))
       = [js ''6.pwr'', js ''7.pwr'', js ''8.pwr'']"
proof -
  let ?run = "performIntelligentUpdate e6 w6 (js ''8.pwr'') (js ''release'')"
  have t: "truthy (Some (js ''5.pwr''))" by (simp add: js_def)
  have c: "(5::int) = extractVersionNumber (Some (js ''5.pwr''))"
    and g: "(8::int) = extractVersionNumber (Some (js ''8.pwr''))"
    using run6_numbers by simp_all
  have h: "getInstalledClientVersion w6 = Some (js ''5.pwr'') \<and> ?run = (fst ?run, snd ?run)"
    by (simp add: getInstalledClientVersion_def loadVersionClient_def w6_def)
  have p1: "(0::int) \<le> 5" and p2: "(5::int) < 8" and p3: "(8::int) < 2 ^ 53" by simp_all
  note T = plan_is_every_version_up_to_target [OF t c g p1 p2 p3, of w6 e6 "fst ?run" "snd ?run"]
  from T h run6_result
  have "deployedVersions (newEvents w6 (snd ?run)) = needsIntermediatePatches (Some (js ''5.pwr'')) (js ''8.pwr'')"
    by blast
  then show ?thesis using t run6_numbers run6_plan run6_result by simp
qed

text \<open>
  Claim C2 as stated fails for the empty string as current version: it is not \<open>null\<close>,
  its build number \<open>0\<close> is below the target's \<open>3\<close>, and the plan is empty.
\<close>

theorem empty_installed_version_gives_empty_plan:
  "Some [] \<noteq> (None :: jsstring option)
   \<and> extractVersionNumber (Some []) = 0
   \<and> extractVersionNumber (Some (js ''3.pwr'')) = 3
   \<and> needsIntermediatePatches (Some []) (js ''3.pwr'') = []"
  by code_simp

section \<open>Differential or full archive\<close>













section \<open>Patching twice\<close>

lemma backupClient_keeps:
  "clientBinary (snd (backupClient e fs)) = clientBinary fs"
  "patchFlagFile (snd (backupClient e fs)) = patchFlagFile fs"
  by (simp_all add: backupClient_def split: option.splits)

lemma backupClient_creates:
  "clientBinary fs = Some c \<Longrightarrow> backupFile fs = None \<Longrightarrow> backupFile (snd (backupClient e fs)) = Some c"
  by (simp add: backupClient_def)

lemma getPatchStatus_cong:
  "patchFlagFile fs = patchFlagFile fs' \<Longrightarrow> clientBinary fs = clientBinary fs'
     \<Longrightarrow> getPatchStatus e fs = getPatchStatus e fs'"
  unfolding getPatchStatus_def by (simp only:)

lemma patched_iff:
  "patched (getPatchStatus e fs) \<longleftrightarrow>
     (\<exists>r data. patchFlagFile fs = Some (FlagData r) \<and> targetDomain r = Some (getNewDomain e)
        \<and> clientBinary fs = Some data
        \<and> bufIncludes data (stringToLengthPrefixed (mainDomain (getDomainStrategy (getNewDomain e)))))"
  by (auto simp: getPatchStatus_def Let_def split: option.splits flagFile.splits)

lemma needsRestore_iff:
  "needsRestore (getPatchStatus e fs) \<longleftrightarrow>
     (\<exists>r. patchFlagFile fs = Some (FlagData r) \<and> targetDomain r \<noteq> Some (getNewDomain e))"
  by (auto simp: getPatchStatus_def Let_def split: option.splits flagFile.splits)

lemma patchClient_already:
  assumes "patched (getPatchStatus e fs)"
  shows "patchClient e fs = (AlreadyPatched, fs)"
proof -
  obtain data where "clientBinary fs = Some data" using assms patched_iff by blast
  then show ?thesis using assms by (simp add: patchClient_def Let_def)
qed

lemma patchClient_unpatched:
  assumes "clientBinary fs = Some x" and "\<not> patched (getPatchStatus e fs)"
    and "clientBinary (prepared e fs) = Some data"
  shows "patchClient e fs =
     (let dp = applyDomainPatches data (getNewDomain e) (js ''https://'');
          dc = patchDiscordUrl (fst dp);
          legacyResult = findAndReplaceDomainSmart data ORIGINAL_DOMAIN
                           (mainDomain (getDomainStrategy (getNewDomain e)))
      in if snd dp = 0 \<and> snd dc = 0
         then (if snd legacyResult > 0
               then (PatchedLegacy (snd legacyResult),
                     markAsPatched e ((prepared e fs)\<lparr>clientBinary := Some (fst legacyResult)\<rparr>))
               else (NoOccurrencesFound, prepared e fs))
         else (Patched (snd dp + snd dc),
               markAsPatched e ((prepared e fs)\<lparr>clientBinary := Some (fst dc)\<rparr>)))"
  using assms by (simp add: patchClient_def Let_def prepared_def)

lemma prepared_client:
  assumes "clientBinary fs = Some x"
  shows "\<exists>data. clientBinary (prepared e fs) = Some data"
  using assms
  by (auto simp: prepared_def backupClient_keeps restoreFromBackup_def split: option.splits)

lemma patchClient_finds_nothing:
  assumes "clientBinary fs = Some x" and "\<not> patched (getPatchStatus e fs)"
    and "clientBinary (prepared e fs) = Some data"
  shows "(fst (patchClient e fs) = NoOccurrencesFound \<longrightarrow> findsNothing e data)
       \<and> (findsNothing e data \<longrightarrow> patchClient e fs = (NoOccurrencesFound, prepared e fs))"
  by (simp add: patchClient_unpatched [OF assms] findsNothing_def Let_def)

lemma restoreFromBackup_cases:
  "backupFile fs = Some original \<Longrightarrow>
     snd (restoreFromBackup fs) = fs\<lparr>clientBinary := Some original, patchFlagFile := None\<rparr>"
  "backupFile fs = None \<Longrightarrow> snd (restoreFromBackup fs) = fs"
  by (simp_all add: restoreFromBackup_def)

lemma no_flag_no_status:
  "patchFlagFile fs = None \<Longrightarrow> \<not> patched (getPatchStatus e fs) \<and> \<not> needsRestore (getPatchStatus e fs)"
  by (simp add: getPatchStatus_def)

text \<open>The state after a call that found nothing is read the same way by the next call.\<close>

lemma prepared_again:
  assumes x: "clientBinary fs = Some x" and np: "\<not> patched (getPatchStatus e fs)"
    and d: "clientBinary (prepared e fs) = Some data"
  shows "\<not> patched (getPatchStatus e (prepared e fs))
       \<and> clientBinary (prepared e (prepared e fs)) = Some data"
proof (cases "needsRestore (getPatchStatus e fs)")
  case False
  then have p: "prepared e fs = snd (backupClient e fs)" by (simp add: prepared_def)
  have st: "getPatchStatus e (prepared e fs) = getPatchStatus e fs"
    by (rule getPatchStatus_cong) (simp_all add: p backupClient_keeps)
  have "prepared e (prepared e fs) = snd (backupClient e (prepared e fs))"
    using False st by (simp add: prepared_def)
  then have "clientBinary (prepared e (prepared e fs)) = clientBinary (prepared e fs)"
    by (simp add: backupClient_keeps)
  then show ?thesis using np st d by simp
next
  case True
  then obtain r where r: "patchFlagFile fs = Some (FlagData r)" "targetDomain r \<noteq> Some (getNewDomain e)"
    using needsRestore_iff by blast
  show ?thesis
  proof (cases "backupFile fs")
    case None
    then have p: "prepared e fs = snd (backupClient e fs)"
      using True by (simp add: prepared_def restoreFromBackup_cases)
    have fl: "patchFlagFile (prepared e fs) = Some (FlagData r)" by (simp add: p backupClient_keeps r)
    have cl: "clientBinary (prepared e fs) = Some x" by (simp add: p backupClient_keeps x)
    have bk: "backupFile (prepared e fs) = Some x" using x None by (simp add: p backupClient_creates)
    have np2: "\<not> patched (getPatchStatus e (prepared e fs))" using fl r(2) by (auto simp: patched_iff)
    have nr2: "needsRestore (getPatchStatus e (prepared e fs))" using fl r(2) needsRestore_iff by blast
    have "prepared e (prepared e fs)
            = snd (backupClient e ((prepared e fs)\<lparr>clientBinary := Some x, patchFlagFile := None\<rparr>))"
      using nr2 bk by (simp add: prepared_def [of e "prepared e fs"] restoreFromBackup_cases)
    then have "clientBinary (prepared e (prepared e fs)) = Some x"
      by (simp add: backupClient_keeps)
    then show ?thesis using np2 cl d by simp
  next
    case (Some original)
    then have p: "prepared e fs
        = snd (backupClient e (fs\<lparr>clientBinary := Some original, patchFlagFile := None\<rparr>))"
      using True by (simp add: prepared_def restoreFromBackup_cases)
    have fl: "patchFlagFile (prepared e fs) = None" by (simp add: p backupClient_keeps)
    note ns = no_flag_no_status [OF fl, of e]
    have "prepared e (prepared e fs) = snd (backupClient e (prepared e fs))"
      using ns by (simp add: prepared_def [of e "prepared e fs"])
    then have "clientBinary (prepared e (prepared e fs)) = clientBinary (prepared e fs)"
      by (simp add: backupClient_keeps)
    then show ?thesis using ns d by simp
  qed
qed

lemma no_occurrences_twice:
  assumes "fst (patchClient e fs) = NoOccurrencesFound"
  shows "fst (patchClient e (snd (patchClient e fs))) = NoOccurrencesFound
       \<and> clientBinary (snd (patchClient e (snd (patchClient e fs)))) = clientBinary (snd (patchClient e fs))"
proof -
  obtain x where x: "clientBinary fs = Some x"
    using assms by (cases "clientBinary fs") (auto simp: patchClient_def Let_def)
  have np: "\<not> patched (getPatchStatus e fs)"
    using assms patchClient_already [of e fs] by auto
  obtain data where d: "clientBinary (prepared e fs) = Some data"
    using prepared_client [OF x] by blast
  note first = patchClient_finds_nothing [OF x np d]
  have z: "findsNothing e data" using first assms by blast
  then have r1: "patchClient e fs = (NoOccurrencesFound, prepared e fs)" using first by blast
  note again = prepared_again [OF x np d]
  have "patchClient e (prepared e fs) = (NoOccurrencesFound, prepared e (prepared e fs))"
    using patchClient_finds_nothing [OF d, of e data] again z by blast
  then show ?thesis using r1 again d by simp
qed

text \<open>
  A binary that holds the length-prefixed original domain is patched by the first call
  and left alone by the second, which reports \<open>already patched\<close>. A binary without any
  pattern is left alone by both calls, which both report \<open>No occurrences found\<close>.
\<close>

lemma first_call_patches:
  "fst (patchClient ePatch (freshClient (stringToLengthPrefixed ORIGINAL_DOMAIN))) = Patched 1
   \<and> patched (getPatchStatus ePatch (snd (patchClient ePatch (freshClient (stringToLengthPrefixed ORIGINAL_DOMAIN)))))
   \<and> clientBinary (snd (patchClient ePatch (freshClient (stringToLengthPrefixed ORIGINAL_DOMAIN))))
       = Some (stringToLengthPrefixed (js ''anasol.ws'') @ [0, 109])"
  by code_simp

lemma patched_binary_is_left_alone:
  "patchClient ePatch (snd (patchClient ePatch (freshClient (stringToLengthPrefixed ORIGINAL_DOMAIN))))
     = (AlreadyPatched, snd (patchClient ePatch (freshClient (stringToLengthPrefixed ORIGINAL_DOMAIN))))"
  using first_call_patches
    patchClient_already [of ePatch "snd (patchClient ePatch (freshClient (stringToLengthPrefixed ORIGINAL_DOMAIN)))"]
  by blast

lemma first_call_finds_nothing:
  "fst (patchClient ePatch (freshClient [77, 90])) = NoOccurrencesFound"
  by code_simp

lemma nothing_found_twice:
  "fst (patchClient ePatch (snd (patchClient ePatch (freshClient [77, 90])))) = NoOccurrencesFound
   \<and> clientBinary (snd (patchClient ePatch (snd (patchClient ePatch (freshClient [77, 90])))))
       = clientBinary (snd (patchClient ePatch (freshClient [77, 90])))"
  using first_call_finds_nothing no_occurrences_twice [of ePatch "freshClient [77, 90]"]
  by blast

text \<open>
  Claim C3 says that two calls of \<open>patchClient\<close> for the same domain leave the binary
  that one call leaves, and that the second call reports \<open>already patched\<close> without
  writing the file. \<open>patchClient\<close> does not keep to this when the first call replaces
  something but no length-prefixed occurrence of the original domain. For the binary
  that holds the Discord link in length-prefixed form and the original domain in
  UTF-16LE, the first call replaces the Discord link only (one replacement is made, so
  the legacy pass is skipped) and writes the flag file. The second call finds the flag
  file for its domain but no length-prefixed main domain in the binary, so
  \<open>getPatchStatus\<close> answers \<open>not patched\<close> and the passes run again: the first two find
  nothing, and the legacy pass now overwrites the UTF-16LE domain. The binary is
  written a second time, with other bytes, and the result is
  \<open>{success: true, patchCount: 1, format: 'legacy'}\<close>, not \<open>already patched\<close>.
\<close>

theorem second_call_rewrites_patched_binary:
  "patchClient ePatch (freshClient discordAndWideDomain) = (Patched 1, afterFirstCall)
   \<and> patchFlagFile afterFirstCall \<noteq> None
   \<and> patchClient ePatch afterFirstCall = (PatchedLegacy 1, afterSecondCall)
   \<and> clientBinary afterSecondCall \<noteq> clientBinary afterFirstCall"
  by code_simp

end
